theory Spec2Isabelle
  imports Complex_Main "HOL-Library.AList"
begin

section \<open>Conventions of the embedding\<close>

text \<open>
  The engine is JavaScript. A JavaScript number is modelled as a \<^typ>\<open>real\<close> (or as an
  \<^typ>\<open>int\<close> where the code only ever holds a floored value or an index), so the
  arithmetic is exact: rounding, \<open>NaN\<close> and the infinities are outside the model.
  \<open>undefined\<close> is \<open>None\<close>. A thrown exception is the left injection of a sum.
  A JavaScript \<open>Map\<close> is an association list in insertion order, written with
  \<^const>\<open>AList.update\<close> (\<open>Map.set\<close>: replace in place, else append) and read with
  \<^const>\<open>map_of\<close> (\<open>Map.get\<close>). A \<open>Set\<close> is a list without duplicates in
  insertion order.
\<close>

datatype error = TypeError | RangeError

text \<open>Reading \<open>xs[i]\<close> for a whole number \<open>i\<close>: \<open>undefined\<close> outside the array.\<close>

definition js_index :: "'a list \<Rightarrow> int \<Rightarrow> 'a option" where
  "js_index xs i = (if 0 \<le> i \<and> i < int (length xs) then Some (xs ! nat i) else None)"

text \<open>
  Writing \<open>xs[i] = v\<close> for \<open>0 \<le> i\<close> on an array whose slots may be empty: a write
  past the end extends the array, the slots in between stay empty.
\<close>

definition js_store :: "'a option list \<Rightarrow> int \<Rightarrow> 'a \<Rightarrow> 'a option list" where
  "js_store xs i v =
     (if i < int (length xs) then xs[nat i := Some v]
      else xs @ replicate (nat i - length xs) None @ [Some v])"

text \<open>\<open>Set.add\<close>: the element goes to the end unless it is already there.\<close>

definition set_add :: "'a \<Rightarrow> 'a list \<Rightarrow> 'a list" where
  "set_add k s = (if k \<in> set s then s else s @ [k])"

section \<open>World: the sector grid\<close>

record sector =
  floor_s :: real
  ceiling_s :: real
  walkable :: bool
  floorColor :: "real list"
  wallColor :: "real list"
  ceilingColor :: "real list"
  name :: string
  solid :: bool
  friction :: real
  damage :: real
  light :: real
  properties :: "(string \<times> string) list"

text \<open>The \<open>definition\<close> argument of \<open>registerSectorType\<close>: any subset of the fields.\<close>

record sector_def =
  d_floor :: "real option"
  d_ceiling :: "real option"
  d_walkable :: "bool option"
  d_floorColor :: "real list option"
  d_wallColor :: "real list option"
  d_ceilingColor :: "real list option"
  d_name :: "string option"
  d_solid :: "bool option"
  d_friction :: "real option"
  d_damage :: "real option"
  d_light :: "real option"
  d_properties :: "(string \<times> string) list option"

record region =
  region_name :: string
  bounds :: "real \<times> real \<times> real \<times> real"
  region_properties :: "(string \<times> string) list"

text \<open>
  A grid cell holds a sector-type key; \<open>None\<close> is an empty or \<open>undefined\<close> slot,
  which only a malformed snapshot can produce.
\<close>

record world =
  width :: int
  height :: int
  defaultSector :: string
  grid :: "string option list list"
  sectorTypes :: "(string \<times> sector) list"
  regions :: "(string \<times> region) list"

record world_config =
  c_width :: "int option"
  c_height :: "int option"
  c_defaultSector :: "string option"

text \<open>\<open>String.prototype.toUpperCase\<close> on ASCII letters.\<close>

definition toUpperCase :: "string \<Rightarrow> string" where
  "toUpperCase s =
     map (\<lambda>c. let n = (of_char c :: nat) in if 97 \<le> n \<and> n \<le> 122 then char_of (n - 32) else c) s"

definition orElse :: "'a option \<Rightarrow> 'a \<Rightarrow> 'a" where
  "orElse v d = (case v of None \<Rightarrow> d | Some a \<Rightarrow> a)"

text \<open>\<open>{ ...defaults, ...definition }\<close>: a field of the definition wins over the default.\<close>

definition registerSectorType :: "string \<Rightarrow> sector_def \<Rightarrow> world \<Rightarrow> world" where
  "registerSectorType key def W =
     W\<lparr>sectorTypes := AList.update key
        \<lparr>floor_s = orElse (d_floor def) 0,
         ceiling_s = orElse (d_ceiling def) 1,
         walkable = orElse (d_walkable def) True,
         floorColor = orElse (d_floorColor def) [128, 128, 128],
         wallColor = orElse (d_wallColor def) [160, 160, 160],
         ceilingColor = orElse (d_ceilingColor def) [100, 100, 100],
         name = orElse (d_name def) (toUpperCase key),
         solid = orElse (d_solid def) False,
         friction = orElse (d_friction def) 1,
         damage = orElse (d_damage def) 0,
         light = orElse (d_light def) 1,
         properties = orElse (d_properties def) []\<rparr>
        (sectorTypes W)\<rparr>"

definition no_def :: sector_def where
  "no_def = \<lparr>d_floor = None, d_ceiling = None, d_walkable = None, d_floorColor = None,
     d_wallColor = None, d_ceilingColor = None, d_name = None, d_solid = None,
     d_friction = None, d_damage = None, d_light = None, d_properties = None\<rparr>"

definition void_def :: sector_def where
  "void_def = no_def\<lparr>d_floor := Some (-10), d_ceiling := Some (-10), d_walkable := Some False,
     d_floorColor := Some [20, 20, 25], d_wallColor := Some [40, 40, 50],
     d_ceilingColor := Some [15, 15, 20], d_name := Some ''VOID'', d_solid := Some True\<rparr>"

text \<open>
  The constructor with \<open>_init\<close>. \<open>config.width || 32\<close> takes 32 for a missing or zero
  width, \<open>config.defaultSector || 'void'\<close> takes \<open>'void'\<close> for a missing or empty key;
  \<open>Array(n)\<close> throws a \<open>RangeError\<close> for a negative \<open>n\<close>. Only \<open>'void'\<close> is
  registered, whatever the default key is.
\<close>

definition truthy_int :: "int option \<Rightarrow> int \<Rightarrow> int" where
  "truthy_int v d = (case v of None \<Rightarrow> d | Some n \<Rightarrow> if n = 0 then d else n)"

definition truthy_string :: "string option \<Rightarrow> string \<Rightarrow> string" where
  "truthy_string v d = (case v of None \<Rightarrow> d | Some s \<Rightarrow> if s = [] then d else s)"

definition new_World :: "world_config \<Rightarrow> error + world" where
  "new_World config =
     (let w = truthy_int (c_width config) 32;
          h = truthy_int (c_height config) 32;
          ds = truthy_string (c_defaultSector config) ''void''
      in if h < 0 \<or> w < 0 then Inl RangeError
         else Inr (registerSectorType ''void'' void_def
                \<lparr>width = w, height = h, defaultSector = ds,
                 grid = replicate (nat h) (replicate (nat w) (Some ds)),
                 sectorTypes = [], regions = []\<rparr>))"

definition getSector :: "world \<Rightarrow> real \<Rightarrow> real \<Rightarrow> error + sector option" where
  "getSector W x y =
     (let gx = \<lfloor>x\<rfloor>; gy = \<lfloor>y\<rfloor> in
      if gx < 0 \<or> gx \<ge> width W \<or> gy < 0 \<or> gy \<ge> height W
      then Inr (map_of (sectorTypes W) (defaultSector W))
      else (case js_index (grid W) gy of
              None \<Rightarrow> Inl TypeError
            | Some row \<Rightarrow>
                (case Option.bind (Option.bind (js_index row gx) id) (map_of (sectorTypes W)) of
                   Some s \<Rightarrow> Inr (Some s)
                 | None \<Rightarrow> Inr (map_of (sectorTypes W) (defaultSector W)))))"

text \<open>\<open>getSector(x, y).walkable\<close>: reading a property of \<open>undefined\<close> throws.\<close>

definition isWalkable :: "world \<Rightarrow> real \<Rightarrow> real \<Rightarrow> error + bool" where
  "isWalkable W x y =
     (case getSector W x y of
        Inl e \<Rightarrow> Inl e
      | Inr None \<Rightarrow> Inl TypeError
      | Inr (Some s) \<Rightarrow> Inr (walkable s))"

definition getSectorKey :: "world \<Rightarrow> int \<Rightarrow> int \<Rightarrow> error + string option" where
  "getSectorKey W gx gy =
     (if gx < 0 \<or> gx \<ge> width W \<or> gy < 0 \<or> gy \<ge> height W then Inr (Some (defaultSector W))
      else (case js_index (grid W) gy of
              None \<Rightarrow> Inl TypeError
            | Some row \<Rightarrow> Inr (Option.bind (js_index row gx) id)))"

text \<open>
  \<open>setSector\<close> returns whether the cell changed. The \<open>sectorChanged\<close> event goes to
  callbacks registered from outside and is not modelled.
\<close>

definition setSector :: "world \<Rightarrow> int \<Rightarrow> int \<Rightarrow> string \<Rightarrow> error + world \<times> bool" where
  "setSector W gx gy sectorKey =
     (if gx < 0 \<or> gx \<ge> width W \<or> gy < 0 \<or> gy \<ge> height W then Inr (W, False)
      else (case js_index (grid W) gy of
              None \<Rightarrow> Inl TypeError
            | Some row \<Rightarrow>
                if Option.bind (js_index row gx) id = Some sectorKey then Inr (W, False)
                else Inr (W\<lparr>grid := (grid W)[nat gy := js_store row gx sectorKey]\<rparr>, True)))"

text \<open>\<open>fillRect\<close>: the inner loop over \<open>x\<close>, then the outer loop over \<open>y\<close>.\<close>

definition fillRow :: "string option list \<Rightarrow> int \<Rightarrow> int \<Rightarrow> string \<Rightarrow> string option list" where
  "fillRow row minX maxX sectorKey = fold (\<lambda>x r. js_store r x sectorKey) [minX..maxX] row"

fun fillRows :: "string option list list \<Rightarrow> int list \<Rightarrow> int \<Rightarrow> int \<Rightarrow> string
    \<Rightarrow> error + string option list list" where
  "fillRows g [] minX maxX sectorKey = Inr g"
| "fillRows g (y # ys) minX maxX sectorKey =
     (if minX \<le> maxX then
        (case js_index g y of
           None \<Rightarrow> Inl TypeError
         | Some row \<Rightarrow> fillRows (g[nat y := fillRow row minX maxX sectorKey]) ys minX maxX sectorKey)
      else fillRows g ys minX maxX sectorKey)"

definition fillRect :: "world \<Rightarrow> int \<Rightarrow> int \<Rightarrow> int \<Rightarrow> int \<Rightarrow> string \<Rightarrow> error + world" where
  "fillRect W x1 y1 x2 y2 sectorKey =
     (let minX = max 0 (min x1 x2);
          maxX = min (width W - 1) (max x1 x2);
          minY = max 0 (min y1 y2);
          maxY = min (height W - 1) (max y1 y2)
      in case fillRows (grid W) [minY..maxY] minX maxX sectorKey of
           Inl e \<Rightarrow> Inl e
         | Inr g \<Rightarrow> Inr (W\<lparr>grid := g\<rparr>))"


subsection \<open>Snapshots\<close>

text \<open>
  A plain object is the list of its own properties in enumeration order: the keys that
  are array indices (canonical decimal strings below \<open>2^32 - 1\<close>) come first, in
  ascending numeric order, then the other keys in the order of their creation.
\<close>

definition parse_nat :: "string \<Rightarrow> nat" where
  "parse_nat s = foldl (\<lambda>n c. 10 * n + (of_char c - 48)) 0 s"

definition array_index :: "string \<Rightarrow> nat option" where
  "array_index s =
     (if s \<noteq> [] \<and> (\<forall>c \<in> set s. 48 \<le> (of_char c :: nat) \<and> (of_char c :: nat) \<le> 57)
         \<and> (s = ''0'' \<or> hd s \<noteq> CHR ''0'') \<and> parse_nat s < 2 ^ 32 - 1
      then Some (parse_nat s) else None)"

definition own_property_order :: "(string \<times> 'v) list \<Rightarrow> (string \<times> 'v) list" where
  "own_property_order ps =
     sort_key (\<lambda>p. orElse (array_index (fst p)) 0) (filter (\<lambda>p. array_index (fst p) \<noteq> None) ps)
     @ filter (\<lambda>p. array_index (fst p) = None) ps"

definition set_entries :: "(string \<times> 'v) list \<Rightarrow> (string \<times> 'v) list" where
  "set_entries es = fold (\<lambda>p m. AList.update (fst p) (snd p) m) es []"

definition Object_fromEntries :: "(string \<times> 'v) list \<Rightarrow> (string \<times> 'v) list" where
  "Object_fromEntries es = own_property_order (set_entries es)"

definition Object_entries :: "(string \<times> 'v) list \<Rightarrow> (string \<times> 'v) list" where
  "Object_entries obj = obj"

record snapshot =
  s_width :: int
  s_height :: int
  s_defaultSector :: string
  s_sectorTypes :: "(string \<times> sector) list"
  s_grid :: "string option list list"
  s_regions :: "(string \<times> region) list"

definition World_serialize :: "world \<Rightarrow> snapshot" where
  "World_serialize W =
     \<lparr>s_width = width W, s_height = height W, s_defaultSector = defaultSector W,
      s_sectorTypes = Object_fromEntries (sectorTypes W),
      s_grid = map (\<lambda>row. row) (grid W),
      s_regions = Object_fromEntries (regions W)\<rparr>"

text \<open>\<open>deserialize\<close> overwrites the world it is called on: both maps are cleared first.\<close>

definition World_deserialize :: "world \<Rightarrow> snapshot \<Rightarrow> world" where
  "World_deserialize W data =
     W\<lparr>width := s_width data, height := s_height data, defaultSector := s_defaultSector data,
       sectorTypes := set_entries (Object_entries (s_sectorTypes data)),
       grid := map (\<lambda>row. row) (s_grid data),
       regions := set_entries (Object_entries (s_regions data))\<rparr>"


text \<open>\<open>countWalkable\<close>: the number of cells \<open>(x, y)\<close> of the grid that are walkable.\<close>

fun countWalkable_cells :: "world \<Rightarrow> (int \<times> int) list \<Rightarrow> nat \<Rightarrow> error + nat" where
  "countWalkable_cells W [] count = Inr count"
| "countWalkable_cells W ((x, y) # cs) count =
     (case isWalkable W (of_int x) (of_int y) of
        Inl e \<Rightarrow> Inl e
      | Inr w \<Rightarrow> countWalkable_cells W cs (if w then count + 1 else count))"

definition countWalkable :: "world \<Rightarrow> error + nat" where
  "countWalkable W =
     countWalkable_cells W (concat (map (\<lambda>y. map (\<lambda>x. (x, y)) [0..width W - 1]) [0..height W - 1])) 0"

text \<open>Sequencing of calls that may throw.\<close>

definition ebind :: "error + 'a \<Rightarrow> ('a \<Rightarrow> error + 'b) \<Rightarrow> error + 'b" where
  "ebind r f = (case r of Inl e \<Rightarrow> Inl e | Inr v \<Rightarrow> f v)"

lemma ebind_cong [fundef_cong]:
  "r = r' \<Longrightarrow> (\<And>v. r' = Inr v \<Longrightarrow> f v = f' v) \<Longrightarrow> ebind r f = ebind r' f'"
  by (auto simp: ebind_def split: sum.splits)

text \<open>\<open>v || d\<close> on a number that may be missing: zero is falsy.\<close>

definition truthy_real :: "real option \<Rightarrow> real \<Rightarrow> real" where
  "truthy_real v d = (case v of None \<Rightarrow> d | Some r \<Rightarrow> if r = 0 then d else r)"

section \<open>Movement: the collision solver\<close>

text \<open>
  The solver keeps a reference to the world; the model passes the world's current state
  to each call.
\<close>

record movement =
  defaultRadius :: real
  maxStepHeight :: real
  collisionStep :: real
  slideIterations :: real

record movement_config =
  c_defaultRadius :: "real option"
  c_maxStepHeight :: "real option"
  c_collisionStep :: "real option"
  c_slideIterations :: "real option"

definition new_Movement :: "movement_config \<Rightarrow> movement" where
  "new_Movement config =
     \<lparr>defaultRadius = truthy_real (c_defaultRadius config) 0.2,
      maxStepHeight = truthy_real (c_maxStepHeight config) 0.3,
      collisionStep = truthy_real (c_collisionStep config) 0.05,
      slideIterations = truthy_real (c_slideIterations config) 3\<rparr>"

definition no_movement_config :: movement_config where
  "no_movement_config = \<lparr>c_defaultRadius = None, c_maxStepHeight = None,
     c_collisionStep = None, c_slideIterations = None\<rparr>"

text \<open>
  What \<open>move\<close> reads of the object it is given: \<open>x\<close>, \<open>y\<close>, and \<open>radius\<close> and
  \<open>z\<close>, which a plain object may lack. The fields of entity objects carry the prefix
  \<open>e_\<close>.
\<close>

record body =
  e_x :: real
  e_y :: real
  e_radius :: "real option"
  e_z :: "real option"

record move_result =
  res_x :: real
  res_y :: real
  collided :: bool
  slideX :: real
  slideY :: real

text \<open>
  The loop of \<open>canOccupy\<close> over its nine test points. The parameter \<open>z\<close> has the
  default value 0, which JavaScript also takes for an \<open>undefined\<close> argument, so
  the test \<open>z !== undefined\<close> in the loop always succeeds.
\<close>

fun canOccupy_points :: "movement \<Rightarrow> world \<Rightarrow> real \<Rightarrow> (real \<times> real) list \<Rightarrow> error + bool" where
  "canOccupy_points M W z [] = Inr True"
| "canOccupy_points M W z ((px, py) # ps) =
     (case getSector W px py of
        Inl e \<Rightarrow> Inl e
      | Inr None \<Rightarrow> Inl TypeError
      | Inr (Some sector) \<Rightarrow>
          if \<not> walkable sector then Inr False
          else if floor_s sector - z > maxStepHeight M then Inr False
          else canOccupy_points M W z ps)"

definition canOccupy :: "movement \<Rightarrow> world \<Rightarrow> real \<Rightarrow> real \<Rightarrow> real option \<Rightarrow> real option
    \<Rightarrow> error + bool" where
  "canOccupy M W x y radius z =
     (let r = truthy_real radius (defaultRadius M);
          testPoints = [(x, y),
                        (x - r, y - r), (x + r, y - r), (x - r, y + r), (x + r, y + r),
                        (x - r, y), (x + r, y), (x, y - r), (x, y + r)]
      in canOccupy_points M W (orElse z 0) testPoints)"

text \<open>The micro-step loop of \<open>move\<close>: \<open>n\<close> is the number of iterations left.\<close>

fun move_steps :: "movement \<Rightarrow> world \<Rightarrow> real \<Rightarrow> real option \<Rightarrow> real \<Rightarrow> real \<Rightarrow> nat \<Rightarrow> real \<Rightarrow> real
    \<Rightarrow> error + real \<times> real" where
  "move_steps M W r z stepX stepY 0 x y = Inr (x, y)"
| "move_steps M W r z stepX stepY (Suc n) x y =
     (let nextX = x + stepX; nextY = y + stepY in
      ebind (canOccupy M W nextX nextY (Some r) z) (\<lambda>both.
      if both then move_steps M W r z stepX stepY n nextX nextY
      else ebind (canOccupy M W nextX y (Some r) z) (\<lambda>xOnly.
      if xOnly then move_steps M W r z stepX stepY n nextX y
      else ebind (canOccupy M W x nextY (Some r) z) (\<lambda>yOnly.
      if yOnly then move_steps M W r z stepX stepY n x nextY
      else Inr (x, y)))))"

definition move :: "movement \<Rightarrow> world \<Rightarrow> 'a body_scheme \<Rightarrow> real \<Rightarrow> real \<Rightarrow> error + move_result" where
  "move M W entity dx dy =
     (let r = truthy_real (e_radius entity) (defaultRadius M);
          z = e_z entity;
          startX = e_x entity;
          startY = e_y entity;
          newX = startX + dx;
          newY = startY + dy
      in
      ebind (canOccupy M W newX newY (Some r) z) (\<lambda>free.
      if free then Inr \<lparr>res_x = newX, res_y = newY, collided = False, slideX = 0, slideY = 0\<rparr>
      else
      ebind (if dx \<noteq> 0 then canOccupy M W newX startY (Some r) z else Inr False) (\<lambda>xFree.
      let resultX = (if xFree then newX else startX);
          collided1 = (if xFree then False else True)
      in
      ebind (if dy \<noteq> 0 then canOccupy M W resultX newY (Some r) z else Inr False) (\<lambda>yFree.
      let resultY = (if yFree then newY else startY);
          collided2 = (if yFree then False else collided1)
      in
      ebind
        (if resultX = startX \<and> resultY = startY \<and> (dx \<noteq> 0 \<or> dy \<noteq> 0) then
           (let len = sqrt (dx * dx + dy * dy) in
            if len > collisionStep M then
              (let steps = \<lceil>len / collisionStep M\<rceil>;
                   stepX = dx / of_int steps;
                   stepY = dy / of_int steps
               in ebind (move_steps M W r z stepX stepY (nat steps) startX startY) (\<lambda>(x, y).
                  Inr (x, y, x = startX \<and> y = startY)))
            else Inr (resultX, resultY, collided2))
         else Inr (resultX, resultY, collided2))
        (\<lambda>(resultX, resultY, collided3).
           Inr \<lparr>res_x = resultX, res_y = resultY, collided = collided3,
                slideX = resultX - startX - dx, slideY = resultY - startY - dy\<rparr>)))))"


section \<open>Visibility: fog of war and ray casting\<close>

text \<open>
  The sets \<open>discovered\<close> and \<open>currentlyVisible\<close> hold the keys \<open>"gx,gy"\<close>, which
  the code splits back into the two numbers; the model keeps the pair \<open>(gx, gy)\<close>.
  The engine keeps a reference to the world, so it sees every later change of the
  grid; the model passes the world's current state to each call. The fields
  \<open>losCache\<close> and \<open>lastUpdateTime\<close> (the clock) are read by no query and are left out,
  and so are the listeners, which are callbacks from outside: \<open>update\<close> returns the
  cells of the \<open>discovered\<close> event instead.
\<close>

type_synonym cell = "int \<times> int"

record visibility =
  viewDistance :: real
  rayStep :: real
  fovRayCount :: real
  discovered :: "cell list"
  currentlyVisible :: "cell list"
  losCacheTimeout :: real
  totalWalkable :: nat

record visibility_config =
  c_viewDistance :: "real option"
  c_rayStep :: "real option"
  c_fovRayCount :: "real option"
  c_losCacheTimeout :: "real option"

definition no_visibility_config :: visibility_config where
  "no_visibility_config = \<lparr>c_viewDistance = None, c_rayStep = None, c_fovRayCount = None,
     c_losCacheTimeout = None\<rparr>"

definition new_Visibility :: "world \<Rightarrow> visibility_config \<Rightarrow> error + visibility" where
  "new_Visibility W config =
     ebind (countWalkable W) (\<lambda>n.
       Inr \<lparr>viewDistance = truthy_real (c_viewDistance config) 14,
            rayStep = truthy_real (c_rayStep config) 0.4,
            fovRayCount = truthy_real (c_fovRayCount config) 180,
            discovered = [],
            currentlyVisible = [],
            losCacheTimeout = truthy_real (c_losCacheTimeout config) 100,
            totalWalkable = n\<rparr>)"

text \<open>
  A call that changes the engine and may throw leaves a state behind either way: its
  outcome is the state together with the value returned (\<open>Inr\<close>) or the exception
  thrown (\<open>Inl\<close>). A call that never returns has no outcome: \<open>None\<close>.

  The loop of \<open>_castVisibilityRay\<close>; \<open>vis\<close> is the set \<open>currentlyVisible\<close> that the rays
  of one sweep fill, and the result is that set with the exception, if one was thrown.
  The counter \<open>d\<close> reaches the view distance only for a positive step; for any other
  step the loop ends at the first cell that is not walkable, or never.
\<close>

partial_function (option) castVisibilityRay_loop ::
    "world \<Rightarrow> real \<Rightarrow> real \<Rightarrow> real \<Rightarrow> real \<Rightarrow> real \<Rightarrow> real \<Rightarrow> real \<Rightarrow> cell list
     \<Rightarrow> (cell list \<times> error option) option" where
  "castVisibilityRay_loop W vd step dx dy d x y vis =
     (if d < vd then
        (case isWalkable W (x + dx) (y + dy) of
           Inl e \<Rightarrow> Some (set_add (\<lfloor>x + dx\<rfloor>, \<lfloor>y + dy\<rfloor>) vis, Some e)
         | Inr w \<Rightarrow>
             if \<not> w then Some (set_add (\<lfloor>x + dx\<rfloor>, \<lfloor>y + dy\<rfloor>) vis, None)
             else castVisibilityRay_loop W vd step dx dy (d + step) (x + dx) (y + dy)
                    (set_add (\<lfloor>x + dx\<rfloor>, \<lfloor>y + dy\<rfloor>) vis))
      else Some (vis, None))"

definition castVisibilityRay :: "world \<Rightarrow> visibility \<Rightarrow> real \<Rightarrow> real \<Rightarrow> real \<Rightarrow> cell list
    \<Rightarrow> (cell list \<times> error option) option" where
  "castVisibilityRay W V startX startY a vis =
     castVisibilityRay_loop W (viewDistance V) (rayStep V)
       (cos a * rayStep V) (sin a * rayStep V) 0 startX startY vis"

text \<open>
  The sweep of \<open>update\<close>: one ray for each \<open>i\<close> of the list, in order; an exception
  ends the sweep.
\<close>

fun castVisibilityRays :: "world \<Rightarrow> visibility \<Rightarrow> real \<Rightarrow> real \<Rightarrow> real \<Rightarrow> real \<Rightarrow> int \<Rightarrow> nat list
    \<Rightarrow> cell list \<Rightarrow> (cell list \<times> error option) option" where
  "castVisibilityRays W V x y startAngle fov rayCount [] vis = Some (vis, None)"
| "castVisibilityRays W V x y startAngle fov rayCount (i # is) vis =
     (case castVisibilityRay W V x y (startAngle + (real i / of_int rayCount) * fov) vis of
        None \<Rightarrow> None
      | Some r \<Rightarrow>
          (case snd r of
             Some e \<Rightarrow> Some r
           | None \<Rightarrow> castVisibilityRays W V x y startAngle fov rayCount is (fst r)))"

text \<open>
  The discovery pass of \<open>update\<close> over the new visible set, in insertion order;
  \<open>disc\<close> is the set \<open>discovered\<close> and \<open>newly\<close> the list \<open>newlyDiscovered\<close>. An
  exception ends the pass and keeps what was added to \<open>discovered\<close> before it.
\<close>

fun discover_new :: "world \<Rightarrow> cell list \<Rightarrow> cell list \<Rightarrow> cell list \<Rightarrow> cell list
    \<Rightarrow> cell list \<times> cell list \<times> error option" where
  "discover_new W previousVisible [] disc newly = (disc, newly, None)"
| "discover_new W previousVisible (key # keys) disc newly =
     (if key \<notin> set previousVisible then
        (case isWalkable W (of_int (fst key)) (of_int (snd key)) of
           Inl e \<Rightarrow> (disc, newly, Some e)
         | Inr w \<Rightarrow>
             if w \<and> key \<notin> set disc
             then discover_new W previousVisible keys (set_add key disc) (newly @ [key])
             else discover_new W previousVisible keys disc newly)
      else discover_new W previousVisible keys disc newly)"

text \<open>
  \<open>update(x, y, angle = 0, fov = Math.PI * 2)\<close>. The field \<open>currentlyVisible\<close> is
  replaced before the sweep and filled by it, so an exception in the sweep leaves the
  partly filled set and skips the discovery pass. A call that returns gives the cells
  of its \<open>discovered\<close> event.
\<close>

definition Visibility_update :: "world \<Rightarrow> visibility \<Rightarrow> real \<Rightarrow> real \<Rightarrow> real option \<Rightarrow> real option
    \<Rightarrow> (visibility \<times> (error + cell list)) option" where
  "Visibility_update W V x y angle_arg fov_arg =
     (let a = orElse angle_arg 0;
          fov = orElse fov_arg (pi * 2);
          previousVisible = currentlyVisible V;
          startAngle = a - fov / 2;
          rayCount = \<lceil>fovRayCount V * (fov / (pi * 2))\<rceil>
      in
      case castVisibilityRays W V x y startAngle fov rayCount [0..<nat rayCount] [] of
        None \<Rightarrow> None
      | Some (vis, Some e) \<Rightarrow> Some (V\<lparr>currentlyVisible := vis\<rparr>, Inl e)
      | Some (vis, None) \<Rightarrow>
          (case discover_new W previousVisible vis (discovered V) [] of
             (disc, newly, Some e) \<Rightarrow>
               Some (V\<lparr>currentlyVisible := vis, discovered := disc\<rparr>, Inl e)
           | (disc, newly, None) \<Rightarrow>
               Some (V\<lparr>currentlyVisible := vis, discovered := disc\<rparr>, Inr newly)))"

definition isVisible :: "visibility \<Rightarrow> int \<Rightarrow> int \<Rightarrow> bool" where
  "isVisible V gx gy = ((gx, gy) \<in> set (currentlyVisible V))"

definition isDiscovered :: "visibility \<Rightarrow> int \<Rightarrow> int \<Rightarrow> bool" where
  "isDiscovered V gx gy = ((gx, gy) \<in> set (discovered V))"

definition resetDiscovery :: "visibility \<Rightarrow> visibility" where
  "resetDiscovery V = V\<lparr>discovered := [], currentlyVisible := []\<rparr>"

subsection \<open>Rays for rendering\<close>

datatype face = NS | EW

record hit_info =
  gridX :: int
  gridY :: int
  hit_sector :: sector
  sectorKey :: "string option"
  face :: face
  hit_visible :: bool
  hit_discovered :: bool

text \<open>
  The object \<open>castRay\<close> returns: \<open>hit\<close> is \<open>None\<close> for \<open>hit: false\<close> and holds the
  fields of a hit otherwise. \<open>castRays\<close> adds \<open>correctedDistance\<close> and \<open>column\<close>.
\<close>

record ray =
  hit :: "hit_info option"
  ray_x :: real
  ray_y :: real
  distance :: real
  correctedDistance :: "real option"
  column :: "nat option"

lemma ceiling_step_less:
  fixes vd d step :: real
  assumes "d < vd" and "\<not> step \<le> 0"
  shows "nat \<lceil>(vd - (d + step)) / step\<rceil> < nat \<lceil>(vd - d) / step\<rceil>"
proof -
  have "(vd - (d + step)) / step = (vd - d) / step - 1"
    using assms by (simp add: field_simps)
  moreover have "0 < (vd - d) / step" using assms by simp
  then have "0 < \<lceil>(vd - d) / step\<rceil>" by linarith
  ultimately show ?thesis by simp
qed

function castRay_loop :: "world \<Rightarrow> visibility \<Rightarrow> real \<Rightarrow> real \<Rightarrow> real \<Rightarrow> real \<Rightarrow> real \<Rightarrow> real
    \<Rightarrow> error + ray" where
  "castRay_loop W V mx dx dy x y travelled =
     (if travelled < mx then
        (let x' = x + dx; y' = y + dy; travelled' = travelled + 0.02;
             gx = \<lfloor>x'\<rfloor>; gy = \<lfloor>y'\<rfloor>
         in case getSector W x' y' of
              Inl e \<Rightarrow> Inl e
            | Inr None \<Rightarrow> Inl TypeError
            | Inr (Some sector) \<Rightarrow>
                if \<not> walkable sector then
                  (let fractX = x' - of_int gx;
                       fractY = y' - of_int gy;
                       isNorthSouth = (fractX < 0.05 \<or> fractX > 0.95)
                   in ebind (getSectorKey W gx gy) (\<lambda>key.
                      Inr \<lparr>hit = Some \<lparr>gridX = gx, gridY = gy, hit_sector = sector,
                                sectorKey = key,
                                face = (if isNorthSouth then NS else EW),
                                hit_visible = isVisible V gx gy,
                                hit_discovered = isDiscovered V gx gy\<rparr>,
                           ray_x = x', ray_y = y', distance = travelled',
                           correctedDistance = None, column = None\<rparr>))
                else castRay_loop W V mx dx dy x' y' travelled')
      else Inr \<lparr>hit = None, ray_x = x, ray_y = y, distance = mx,
                correctedDistance = None, column = None\<rparr>)"
  by pat_completeness auto
termination
proof (relation "measure (\<lambda>(W, V, mx, dx, dy, x, y, travelled). nat \<lceil>(mx - travelled) / 0.02\<rceil>)",
    goal_cases)
  case 1
  show ?case by simp
next
  case (2 W V mx dx dy x y travelled)
  then have "travelled < mx" and "\<not> (0.02 :: real) \<le> 0" by simp_all
  then have "nat \<lceil>(mx - (travelled + 0.02)) / 0.02\<rceil> < nat \<lceil>(mx - travelled) / 0.02\<rceil>"
    by (rule ceiling_step_less)
  with 2 show ?case by (simp only: in_measure prod.case)
qed

definition castRay :: "world \<Rightarrow> visibility \<Rightarrow> real \<Rightarrow> real \<Rightarrow> real \<Rightarrow> real option \<Rightarrow> error + ray" where
  "castRay W V startX startY a maxDist =
     (let mx = truthy_real maxDist (viewDistance V * 1.5) in
      castRay_loop W V mx (cos a * 0.02) (sin a * 0.02) startX startY 0)"

text \<open>
  The loop of \<open>castRays\<close>. \<open>castRay\<close> always returns an object, so the test
  \<open>if (hit)\<close> always succeeds. \<open>rayCount\<close> is a count of screen columns.
\<close>

fun castRays_loop :: "world \<Rightarrow> visibility \<Rightarrow> real \<Rightarrow> real \<Rightarrow> real \<Rightarrow> real \<Rightarrow> nat \<Rightarrow> nat list \<Rightarrow> ray list
    \<Rightarrow> error + ray list" where
  "castRays_loop W V startX startY a fov rayCount [] results = Inr results"
| "castRays_loop W V startX startY a fov rayCount (i # is) results =
     (let rayOffset = (real i / real rayCount) - 0.5;
          rayAngle = a + rayOffset * fov
      in ebind (castRay W V startX startY rayAngle None) (\<lambda>h.
         castRays_loop W V startX startY a fov rayCount is
           (results @ [h\<lparr>correctedDistance := Some (distance h * cos (rayAngle - a)),
                         column := Some i\<rparr>])))"

definition castRays :: "world \<Rightarrow> visibility \<Rightarrow> real \<Rightarrow> real \<Rightarrow> real \<Rightarrow> real \<Rightarrow> nat \<Rightarrow> error + ray list" where
  "castRays W V startX startY a fov rayCount =
     castRays_loop W V startX startY a fov rayCount [0..<rayCount] []"


section \<open>Entities and the spatial index\<close>

text \<open>
  Entity objects are shared: the application holds them, and the manager's three
  containers refer to the same objects. An object is a reference into a store; the
  store gives the object's current fields. The base class's \<open>update\<close> is modelled;
  a subclass may override it. The listeners are callbacks from outside and are left out.
\<close>

type_synonym ref = nat

record entity = body +
  e_id :: int
  e_type :: string
  e_angle :: real
  e_height :: real
  e_solid :: bool
  e_vx :: real
  e_vy :: real
  e_speed :: real
  e_visible :: bool
  e_sprite :: "string option"
  e_properties :: "(string \<times> string) list"
  e_active :: bool
  e_removed :: bool

type_synonym store = "ref \<Rightarrow> entity"

record entity_config =
  c_id :: "int option"
  c_type :: "string option"
  c_x :: "real option"
  c_y :: "real option"
  c_z :: "real option"
  c_angle :: "real option"
  c_radius :: "real option"
  c_height_e :: "real option"
  c_solid :: "bool option"
  c_speed :: "real option"
  c_visible :: "bool option"
  c_sprite :: "string option"
  c_properties :: "(string \<times> string) list option"

text \<open>The constructor; the second component is the static counter \<open>Entity.nextId\<close>.\<close>

definition new_Entity :: "entity_config \<Rightarrow> int \<Rightarrow> entity \<times> int" where
  "new_Entity config nextId =
     (let ident = truthy_int (c_id config) nextId;
          nextId' = (if truthy_int (c_id config) 0 = 0 then nextId + 1 else nextId)
      in (\<lparr>e_x = truthy_real (c_x config) 0,
           e_y = truthy_real (c_y config) 0,
           e_radius = Some (truthy_real (c_radius config) 0.2),
           e_z = Some (truthy_real (c_z config) 0),
           e_id = ident,
           e_type = truthy_string (c_type config) ''entity'',
           e_angle = truthy_real (c_angle config) 0,
           e_height = truthy_real (c_height_e config) 0.5,
           e_solid = (c_solid config \<noteq> Some False),
           e_vx = 0,
           e_vy = 0,
           e_speed = truthy_real (c_speed config) 3,
           e_visible = (c_visible config \<noteq> Some False),
           e_sprite = (case c_sprite config of None \<Rightarrow> None | Some sp \<Rightarrow> if sp = [] then None else Some sp),
           e_properties = orElse (c_properties config) [],
           e_active = True,
           e_removed = False\<rparr>, nextId'))"

definition Entity_update :: "store \<Rightarrow> ref \<Rightarrow> real \<Rightarrow> store" where
  "Entity_update H a dt =
     (if e_vx (H a) \<noteq> 0 \<or> e_vy (H a) \<noteq> 0
      then H(a := (H a)\<lparr>e_x := e_x (H a) + e_vx (H a) * dt, e_y := e_y (H a) + e_vy (H a) * dt\<rparr>)
      else H)"

text \<open>\<open>Entity.remove\<close> only marks the object.\<close>

definition Entity_remove :: "store \<Rightarrow> ref \<Rightarrow> store" where
  "Entity_remove H a = H(a := (H a)\<lparr>e_removed := True, e_active := False\<rparr>)"

record entity_manager =
  entities :: "(int \<times> ref) list"
  byType :: "(string \<times> ref list) list"
  spatialHash :: "(cell \<times> ref list) list"
  cellSize :: real

definition new_EntityManager :: entity_manager where
  "new_EntityManager = \<lparr>entities = [], byType = [], spatialHash = [], cellSize = 4\<rparr>"

text \<open>The bucket key \<open>"cx,cy"\<close> is kept as the pair \<open>(cx, cy)\<close>.\<close>

definition getCellKey :: "entity_manager \<Rightarrow> real \<Rightarrow> real \<Rightarrow> cell" where
  "getCellKey EM x y = (\<lfloor>x / cellSize EM\<rfloor>, \<lfloor>y / cellSize EM\<rfloor>)"

definition addToSpatialHash :: "store \<Rightarrow> entity_manager \<Rightarrow> ref \<Rightarrow> entity_manager" where
  "addToSpatialHash H EM a =
     (let key = getCellKey EM (e_x (H a)) (e_y (H a)) in
      EM\<lparr>spatialHash :=
           AList.update key (set_add a (orElse (map_of (spatialHash EM) key) [])) (spatialHash EM)\<rparr>)"

text \<open>Deleting an object from the bucket under a key; an emptied bucket is dropped.\<close>

definition dropFromCell :: "(cell \<times> ref list) list \<Rightarrow> cell \<Rightarrow> ref \<Rightarrow> (cell \<times> ref list) list" where
  "dropFromCell sh key a =
     (case map_of sh key of
        None \<Rightarrow> sh
      | Some bucket \<Rightarrow>
          if removeAll a bucket = [] then AList.delete key sh
          else AList.update key (removeAll a bucket) sh)"

definition removeFromSpatialHash :: "store \<Rightarrow> entity_manager \<Rightarrow> ref \<Rightarrow> entity_manager" where
  "removeFromSpatialHash H EM a =
     EM\<lparr>spatialHash := dropFromCell (spatialHash EM) (getCellKey EM (e_x (H a)) (e_y (H a))) a\<rparr>"

definition updateSpatialHash :: "store \<Rightarrow> entity_manager \<Rightarrow> ref \<Rightarrow> real \<Rightarrow> real \<Rightarrow> entity_manager" where
  "updateSpatialHash H EM a oldX oldY =
     (let oldKey = getCellKey EM oldX oldY;
          newKey = getCellKey EM (e_x (H a)) (e_y (H a))
      in if oldKey \<noteq> newKey
         then addToSpatialHash H (EM\<lparr>spatialHash := dropFromCell (spatialHash EM) oldKey a\<rparr>) a
         else EM)"

definition EntityManager_add :: "store \<Rightarrow> entity_manager \<Rightarrow> ref \<Rightarrow> entity_manager" where
  "EntityManager_add H EM a =
     (let EM1 = EM\<lparr>entities := AList.update (e_id (H a)) a (entities EM)\<rparr>;
          EM2 = EM1\<lparr>byType :=
                  AList.update (e_type (H a))
                    (set_add a (orElse (map_of (byType EM1) (e_type (H a))) [])) (byType EM1)\<rparr>
      in addToSpatialHash H EM2 a)"

text \<open>\<open>remove\<close> takes an entity or an id, and deletes at once.\<close>

datatype entity_or_id = ById int | ByEntity ref

definition EntityManager_remove :: "store \<Rightarrow> entity_manager \<Rightarrow> entity_or_id \<Rightarrow> store \<times> entity_manager" where
  "EntityManager_remove H EM entityOrId =
     (let ident = (case entityOrId of ById n \<Rightarrow> n | ByEntity b \<Rightarrow> e_id (H b)) in
      case map_of (entities EM) ident of
        None \<Rightarrow> (H, EM)
      | Some a \<Rightarrow>
          (let H' = Entity_remove H a;
               EM1 = EM\<lparr>entities := AList.delete ident (entities EM)\<rparr>;
               EM2 = (case map_of (byType EM1) (e_type (H' a)) of
                        None \<Rightarrow> EM1
                      | Some typeSet \<Rightarrow>
                          EM1\<lparr>byType := AList.update (e_type (H' a)) (removeAll a typeSet) (byType EM1)\<rparr>)
           in (H', removeFromSpatialHash H' EM2 a)))"

definition EntityManager_get :: "entity_manager \<Rightarrow> int \<Rightarrow> ref option" where
  "EntityManager_get EM ident = map_of (entities EM) ident"

definition getAll :: "entity_manager \<Rightarrow> ref list" where
  "getAll EM = map snd (entities EM)"

definition getByType :: "entity_manager \<Rightarrow> string \<Rightarrow> ref list" where
  "getByType EM t = orElse (map_of (byType EM) t) []"

text \<open>
  \<open>getNear\<close>: the loop over the entities of one bucket, with the set \<open>checked\<close> of
  ids and the array \<open>results\<close>; then the loops over the bucket keys, rows first.
\<close>

fun getNear_cell :: "store \<Rightarrow> real \<Rightarrow> real \<Rightarrow> real \<Rightarrow> ref list \<Rightarrow> int list \<times> ref list
    \<Rightarrow> int list \<times> ref list" where
  "getNear_cell H x y radiusSq [] acc = acc"
| "getNear_cell H x y radiusSq (a # rest) acc =
     (if e_id (H a) \<in> set (fst acc) then getNear_cell H x y radiusSq rest acc
      else
        (let checked = set_add (e_id (H a)) (fst acc);
             dx = e_x (H a) - x;
             dy = e_y (H a) - y
         in if dx * dx + dy * dy \<le> radiusSq
            then getNear_cell H x y radiusSq rest (checked, snd acc @ [a])
            else getNear_cell H x y radiusSq rest (checked, snd acc)))"

fun getNear_cells :: "store \<Rightarrow> entity_manager \<Rightarrow> real \<Rightarrow> real \<Rightarrow> real \<Rightarrow> cell list
    \<Rightarrow> int list \<times> ref list \<Rightarrow> int list \<times> ref list" where
  "getNear_cells H EM x y radiusSq [] acc = acc"
| "getNear_cells H EM x y radiusSq (key # keys) acc =
     (case map_of (spatialHash EM) key of
        None \<Rightarrow> getNear_cells H EM x y radiusSq keys acc
      | Some bucket \<Rightarrow> getNear_cells H EM x y radiusSq keys (getNear_cell H x y radiusSq bucket acc))"

definition cellRange :: "int \<Rightarrow> int \<Rightarrow> int \<Rightarrow> int \<Rightarrow> cell list" where
  "cellRange minCellX maxCellX minCellY maxCellY =
     concat (map (\<lambda>cy. map (\<lambda>cx. (cx, cy)) [minCellX..maxCellX]) [minCellY..maxCellY])"

definition getNear :: "store \<Rightarrow> entity_manager \<Rightarrow> real \<Rightarrow> real \<Rightarrow> real \<Rightarrow> ref list" where
  "getNear H EM x y r =
     (let radiusSq = r * r;
          minCellX = \<lfloor>(x - r) / cellSize EM\<rfloor>;
          maxCellX = \<lfloor>(x + r) / cellSize EM\<rfloor>;
          minCellY = \<lfloor>(y - r) / cellSize EM\<rfloor>;
          maxCellY = \<lfloor>(y + r) / cellSize EM\<rfloor>
      in snd (getNear_cells H EM x y radiusSq (cellRange minCellX maxCellX minCellY maxCellY) ([], [])))"

text \<open>
  \<open>update\<close>, first pass: every active entity is advanced and moved to its new bucket.
  The pass does not change the map \<open>entities\<close> it iterates over.
\<close>

fun update_entities :: "store \<Rightarrow> entity_manager \<Rightarrow> real \<Rightarrow> ref list \<Rightarrow> store \<times> entity_manager" where
  "update_entities H EM dt [] = (H, EM)"
| "update_entities H EM dt (a # rest) =
     (if \<not> e_active (H a) then update_entities H EM dt rest
      else
        (let oldX = e_x (H a);
             oldY = e_y (H a);
             H' = Entity_update H a dt
         in if e_x (H' a) \<noteq> oldX \<or> e_y (H' a) \<noteq> oldY
            then update_entities H' (updateSpatialHash H' EM a oldX oldY) dt rest
            else update_entities H' EM dt rest))"

text \<open>
  \<open>update\<close>, second pass: the marked entities are removed while the map is iterated.
  A \<open>Map\<close> iterator skips an entry deleted before it is reached; the test
  \<open>map_of (entities EM) (fst entry) = Some (snd entry)\<close> is that.
\<close>

fun purge :: "store \<Rightarrow> entity_manager \<Rightarrow> (int \<times> ref) list \<Rightarrow> store \<times> entity_manager" where
  "purge H EM [] = (H, EM)"
| "purge H EM (entry # rest) =
     (if map_of (entities EM) (fst entry) = Some (snd entry) \<and> e_removed (H (snd entry))
      then (case EntityManager_remove H EM (ByEntity (snd entry)) of (H', EM') \<Rightarrow> purge H' EM' rest)
      else purge H EM rest)"

definition EntityManager_update :: "store \<Rightarrow> entity_manager \<Rightarrow> real \<Rightarrow> store \<times> entity_manager" where
  "EntityManager_update H EM dt =
     (case update_entities H EM dt (map snd (entities EM)) of
        (H1, EM1) \<Rightarrow> purge H1 EM1 (entities EM1))"


section \<open>Concrete worlds and scenarios\<close>

text \<open>The records that \<open>registerSectorType\<close> stores for the keys used below.\<close>

definition void_sector :: sector where
  "void_sector = \<lparr>floor_s = -10, ceiling_s = -10, walkable = False, floorColor = [20, 20, 25],
     wallColor = [40, 40, 50], ceilingColor = [15, 15, 20], name = ''VOID'', solid = True,
     friction = 1, damage = 0, light = 1, properties = []\<rparr>"

definition floor_sector :: sector where
  "floor_sector = \<lparr>floor_s = 0, ceiling_s = 1, walkable = True, floorColor = [128, 128, 128],
     wallColor = [160, 160, 160], ceilingColor = [100, 100, 100], name = ''FLOOR'', solid = False,
     friction = 1, damage = 0, light = 1, properties = []\<rparr>"

definition wall_sector :: sector where
  "wall_sector = floor_sector\<lparr>walkable := False, name := ''WALL''\<rparr>"

definition wall_def :: sector_def where
  "wall_def = no_def\<lparr>d_walkable := Some False\<rparr>"

text \<open>Where a point lies, and the key its cell holds.\<close>

definition out_of_bounds :: "world \<Rightarrow> real \<Rightarrow> real \<Rightarrow> bool" where
  "out_of_bounds W x y = (\<lfloor>x\<rfloor> < 0 \<or> \<lfloor>x\<rfloor> \<ge> width W \<or> \<lfloor>y\<rfloor> < 0 \<or> \<lfloor>y\<rfloor> \<ge> height W)"

definition cellKey :: "world \<Rightarrow> int \<Rightarrow> int \<Rightarrow> string option" where
  "cellKey W gx gy = Option.bind (js_index (grid W) gy) (\<lambda>row. Option.bind (js_index row gx) id)"

text \<open>
  A world of two cells: \<open>floor\<close> is registered, \<open>lava\<close> is not. It is
  \<open>new World({width: 2, height: 1})\<close> after \<open>registerSectorType('floor', {})\<close>,
  \<open>setSector(0, 0, 'floor')\<close> and \<open>setSector(1, 0, 'lava')\<close>.
\<close>

definition lava_world :: world where
  "lava_world = \<lparr>width = 2, height = 1, defaultSector = ''void'',
     grid = [[Some ''floor'', Some ''lava'']],
     sectorTypes = [(''void'', void_sector), (''floor'', floor_sector)], regions = []\<rparr>"

text \<open>\<open>new World({width: 1, height: 1, defaultSector: 'rock'})\<close>: the key \<open>rock\<close> is not registered.\<close>

definition rock_world :: world where
  "rock_world = \<lparr>width = 1, height = 1, defaultSector = ''rock'',
     grid = [[Some ''rock'']],
     sectorTypes = [(''void'', void_sector)], regions = []\<rparr>"

text \<open>
  \<open>new World({width: 1, height: 1, defaultSector: 'rock'})\<close> after
  \<open>registerSectorType('floor', {})\<close> and \<open>setSector(0, 0, 'floor')\<close>: the one cell is
  walkable and the default key \<open>rock\<close> is not registered.
\<close>

definition rock_floor_world :: world where
  "rock_floor_world = \<lparr>width = 1, height = 1, defaultSector = ''rock'',
     grid = [[Some ''floor'']],
     sectorTypes = [(''void'', void_sector), (''floor'', floor_sector)], regions = []\<rparr>"

text \<open>
  \<open>new World({width: 1, height: 1})\<close> after \<open>registerSectorType('void', {})\<close>: the
  default sector type is walkable.
\<close>

definition open_world :: world where
  "open_world = \<lparr>width = 1, height = 1, defaultSector = ''void'',
     grid = [[Some ''void'']],
     sectorTypes = [(''void'', floor_sector\<lparr>name := ''VOID''\<rparr>)], regions = []\<rparr>"

text \<open>
  The corridor of the scenario: four cells wide and three high, the middle row \<open>floor\<close>
  and the rows above and below \<open>wall\<close>. The solver is \<open>new Movement(world)\<close>.
\<close>

definition corridor_world :: world where
  "corridor_world = \<lparr>width = 4, height = 3, defaultSector = ''void'',
     grid = [replicate 4 (Some ''wall''), replicate 4 (Some ''floor''), replicate 4 (Some ''wall'')],
     sectorTypes = [(''void'', void_sector), (''floor'', floor_sector), (''wall'', wall_sector)],
     regions = []\<rparr>"

definition default_movement :: movement where
  "default_movement = \<lparr>defaultRadius = 0.2, maxStepHeight = 0.3, collisionStep = 0.05,
     slideIterations = 3\<rparr>"

definition body_at :: "real \<Rightarrow> real \<Rightarrow> real \<Rightarrow> body" where
  "body_at x y r = \<lparr>e_x = x, e_y = y, e_radius = Some r, e_z = Some 0\<rparr>"

text \<open>
  Sequences of calls on a visibility engine and the world it refers to: an \<open>update\<close>
  call, or a change of the world (\<open>setSector\<close>, \<open>fillRect\<close>, \<open>registerSectorType\<close> or
  any other) that leaves the world in the given state. A run carries the set of all
  cells that have appeared in \<open>currentlyVisible\<close> after some update, and whether
  some update has thrown (the caller catching the exception and going on).
\<close>

datatype vis_op = Update real real "real option" "real option" | Mutate world

fun run_ops :: "world \<times> visibility \<times> cell set \<times> bool \<Rightarrow> vis_op list
    \<Rightarrow> (world \<times> visibility \<times> cell set \<times> bool) option" where
  "run_ops st [] = Some st"
| "run_ops (W, V, seen, threw) (Update x y a f # ops) =
     (case Visibility_update W V x y a f of
        None \<Rightarrow> None
      | Some r \<Rightarrow>
          run_ops (W, fst r, seen \<union> set (currentlyVisible (fst r)), threw \<or> isl (snd r)) ops)"
| "run_ops (W, V, seen, threw) (Mutate W' # ops) = run_ops (W', V, seen, threw) ops"

text \<open>
  A cell is walkable when \<open>isWalkable(gx, gy)\<close> returns true. A sequence makes no new floor
  when none of its changes of the world turns a cell walkable that was not.
\<close>

definition walkable_cell :: "world \<Rightarrow> cell \<Rightarrow> bool" where
  "walkable_cell W c = (isWalkable W (of_int (fst c)) (of_int (snd c)) = Inr True)"

fun no_new_floor :: "world \<Rightarrow> vis_op list \<Rightarrow> bool" where
  "no_new_floor W [] = True"
| "no_new_floor W (Update x y a f # ops) = no_new_floor W ops"
| "no_new_floor W (Mutate W' # ops) =
     ((\<forall>c. walkable_cell W' c \<longrightarrow> walkable_cell W c) \<and> no_new_floor W' ops)"

text \<open>
  A strip of three cells, \<open>floor\<close>, \<open>wall\<close>, \<open>void\<close>; the strip after
  \<open>setSector(1, 0, 'floor')\<close>; and that one after \<open>setSector(0, 0, 'wall')\<close>. The engine
  is \<open>new Visibility(world, {viewDistance: 2, rayStep: 0.5, fovRayCount: 1})\<close>, so that
  \<open>update(0.5, 0.5, Math.PI)\<close> casts the single ray of angle 0, along the strip.
\<close>

definition vis_world1 :: world where
  "vis_world1 = \<lparr>width = 3, height = 1, defaultSector = ''void'',
     grid = [[Some ''floor'', Some ''wall'', Some ''void'']],
     sectorTypes = [(''void'', void_sector), (''floor'', floor_sector), (''wall'', wall_sector)],
     regions = []\<rparr>"

definition vis_world2 :: world where
  "vis_world2 = vis_world1\<lparr>grid := [[Some ''floor'', Some ''floor'', Some ''void'']]\<rparr>"

definition vis_world3 :: world where
  "vis_world3 = vis_world1\<lparr>grid := [[Some ''wall'', Some ''floor'', Some ''void'']]\<rparr>"

definition fog0 :: visibility where
  "fog0 = \<lparr>viewDistance = 2, rayStep = 1/2, fovRayCount = 1, discovered = [],
     currentlyVisible = [], losCacheTimeout = 100, totalWalkable = 1\<rparr>"

definition fog1 :: visibility where
  "fog1 = fog0\<lparr>currentlyVisible := [(1, 0)]\<rparr>"

definition fog2 :: visibility where
  "fog2 = fog0\<lparr>currentlyVisible := [(1, 0), (2, 0)]\<rparr>"

definition fog3 :: visibility where
  "fog3 = fog0\<lparr>currentlyVisible := [(1, 0), (2, 0)], discovered := [(1, 0)]\<rparr>"

text \<open>The state that \<open>update(1.5, 0.5)\<close> on the second strip leaves from \<open>fog3\<close>.\<close>

definition fog4 :: visibility where
  "fog4 = fog0\<lparr>currentlyVisible := [(1, 0), (0, 0), (-1, 0)], discovered := [(1, 0), (0, 0)]\<rparr>"

text \<open>
  Two rays from \<open>(3.98, 1.98)\<close> in the corridor: the one of angle 0 leaves the grid
  at \<open>x = 4\<close>, the one of angle \<open>\<pi>/2\<close> meets the wall row at \<open>y = 2\<close>.
\<close>

definition east_hit :: ray where
  "east_hit = \<lparr>hit = Some \<lparr>gridX = 4, gridY = 1, hit_sector = void_sector,
       sectorKey = Some ''void'', face = NS, hit_visible = False, hit_discovered = False\<rparr>,
     ray_x = 4, ray_y = 99/50, distance = 1/50, correctedDistance = None, column = None\<rparr>"

definition south_hit :: ray where
  "south_hit = \<lparr>hit = Some \<lparr>gridX = 3, gridY = 2, hit_sector = wall_sector,
       sectorKey = Some ''wall'', face = NS, hit_visible = False, hit_discovered = False\<rparr>,
     ray_x = 199/50, ray_y = 2, distance = 1/50, correctedDistance = None, column = None\<rparr>"

text \<open>
  The distance \<open>getNear\<close> is to measure, and the state of a manager whose index agrees
  with the objects it holds: the cell size is positive; the keys of the map \<open>entities\<close>
  are distinct, as the keys of a \<open>Map\<close> are; every registered object has the id it is
  registered under; every registered object is in the bucket of the cell its current
  position lies in; and the buckets hold registered objects only.
\<close>

definition near :: "store \<Rightarrow> real \<Rightarrow> real \<Rightarrow> real \<Rightarrow> ref \<Rightarrow> bool" where
  "near H x y r a = (sqrt ((e_x (H a) - x)\<^sup>2 + (e_y (H a) - y)\<^sup>2) \<le> r)"

definition index_consistent :: "store \<Rightarrow> entity_manager \<Rightarrow> bool" where
  "index_consistent H EM =
     (0 < cellSize EM \<and>
      distinct (map fst (entities EM)) \<and>
      (\<forall>entry \<in> set (entities EM). e_id (H (snd entry)) = fst entry) \<and>
      (\<forall>a \<in> set (getAll EM).
         \<exists>bucket. map_of (spatialHash EM) (getCellKey EM (e_x (H a)) (e_y (H a))) = Some bucket
                   \<and> a \<in> set bucket) \<and>
      (\<forall>key bucket. map_of (spatialHash EM) key = Some bucket \<longrightarrow> set bucket \<subseteq> set (getAll EM)))"

text \<open>Two stores that agree on ids and positions.\<close>

definition same_place :: "store \<Rightarrow> store \<Rightarrow> bool" where
  "same_place H H' = (\<forall>b. e_id (H' b) = e_id (H b) \<and> e_x (H' b) = e_x (H b) \<and> e_y (H' b) = e_y (H b))"

text \<open>
  Three entities, \<open>new Entity({id: 1, x: 1})\<close>, \<open>new Entity({id: 2, x: 5})\<close> and
  \<open>new Entity({id: 3, x: 30, y: 30})\<close>, held at the references 10, 11 and 12, and the
  manager after \<open>add\<close> of each; and the manager without the second.
\<close>

definition entity_at :: "int \<Rightarrow> real \<Rightarrow> real \<Rightarrow> entity" where
  "entity_at ident x y =
     \<lparr>e_x = x, e_y = y, e_radius = Some 0.2, e_z = Some 0, e_id = ident, e_type = ''entity'',
      e_angle = 0, e_height = 0.5, e_solid = True, e_vx = 0, e_vy = 0, e_speed = 3,
      e_visible = True, e_sprite = None, e_properties = [], e_active = True, e_removed = False\<rparr>"

definition no_entity_config :: entity_config where
  "no_entity_config = \<lparr>c_id = None, c_type = None, c_x = None, c_y = None, c_z = None,
     c_angle = None, c_radius = None, c_height_e = None, c_solid = None, c_speed = None,
     c_visible = None, c_sprite = None, c_properties = None\<rparr>"

definition store3 :: store where
  "store3 = (\<lambda>a. entity_at 9 0 0)(10 := entity_at 1 1 0, 11 := entity_at 2 5 0, 12 := entity_at 3 30 30)"

definition em3 :: entity_manager where
  "em3 = \<lparr>entities = [(1, 10), (2, 11), (3, 12)],
     byType = [(''entity'', [10, 11, 12])],
     spatialHash = [((0, 0), [10]), ((1, 0), [11]), ((7, 7), [12])],
     cellSize = 4\<rparr>"

definition em3_without :: entity_manager where
  "em3_without = \<lparr>entities = [(1, 10), (3, 12)],
     byType = [(''entity'', [10, 12])],
     spatialHash = [((0, 0), [10]), ((7, 7), [12])],
     cellSize = 4\<rparr>"

section \<open>Verified properties\<close>

subsection \<open>Auxiliary facts\<close>

lemma ebind_simps [simp]: "ebind (Inl e) f = Inl e" "ebind (Inr v) f = f v"
  by (simp_all add: ebind_def)

lemma toUpperCase_floor: "toUpperCase ''floor'' = ''FLOOR''"
  by code_simp

lemma toUpperCase_wall: "toUpperCase ''wall'' = ''WALL''"
  by code_simp

lemma toUpperCase_void: "toUpperCase ''void'' = ''VOID''"
  by code_simp

lemma register_void:
  "registerSectorType ''void'' void_def W
     = W\<lparr>sectorTypes := AList.update ''void'' void_sector (sectorTypes W)\<rparr>"
  by (simp add: registerSectorType_def void_def_def no_def_def void_sector_def orElse_def)

lemma register_floor:
  "registerSectorType ''floor'' no_def W
     = W\<lparr>sectorTypes := AList.update ''floor'' floor_sector (sectorTypes W)\<rparr>"
  by (simp add: registerSectorType_def no_def_def floor_sector_def orElse_def toUpperCase_floor)

lemma register_wall:
  "registerSectorType ''wall'' wall_def W
     = W\<lparr>sectorTypes := AList.update ''wall'' wall_sector (sectorTypes W)\<rparr>"
  by (simp add: registerSectorType_def no_def_def wall_def_def wall_sector_def floor_sector_def
      orElse_def toUpperCase_wall)

lemma register_open_void:
  "registerSectorType ''void'' no_def W
     = W\<lparr>sectorTypes := AList.update ''void'' (floor_sector\<lparr>name := ''VOID''\<rparr>) (sectorTypes W)\<rparr>"
  by (simp add: registerSectorType_def no_def_def floor_sector_def orElse_def toUpperCase_void)

text \<open>The three concrete worlds are what the public interface builds.\<close>

lemma lava_world_built:
  "ebind (new_World \<lparr>c_width = Some 2, c_height = Some 1, c_defaultSector = None\<rparr>) (\<lambda>W0.
   ebind (setSector (registerSectorType ''floor'' no_def W0) 0 0 ''floor'') (\<lambda>(W1, changed).
   setSector W1 1 0 ''lava'')) = Inr (lava_world, True)"
  by (simp add: new_World_def truthy_int_def truthy_string_def register_void register_floor
      setSector_def js_index_def js_store_def lava_world_def Let_def numeral_2_eq_2)

lemma rock_world_built:
  "new_World \<lparr>c_width = Some 1, c_height = Some 1, c_defaultSector = Some ''rock''\<rparr> = Inr rock_world"
  by (simp add: new_World_def truthy_int_def truthy_string_def register_void rock_world_def Let_def)

lemma open_world_built:
  "ebind (new_World \<lparr>c_width = Some 1, c_height = Some 1, c_defaultSector = None\<rparr>) (\<lambda>W0.
   Inr (registerSectorType ''void'' no_def W0)) = Inr open_world"
  by (simp add: new_World_def truthy_int_def truthy_string_def register_void register_open_void
      open_world_def Let_def)

text \<open>
  What the constructor establishes and the registry keeps: the keys of the registry are
  distinct (it is a \<open>Map\<close>), the grid has \<open>height\<close> rows of \<open>width\<close> cells, and
  \<open>void\<close> is registered.
\<close>

lemma new_World_shape:
  assumes "new_World config = Inr W"
  shows "distinct (map fst (sectorTypes W))"
    and "int (length (grid W)) = height W"
    and "\<forall>row \<in> set (grid W). int (length row) = width W"
    and "map_of (sectorTypes W) ''void'' = Some void_sector"
  using assms
  by (auto simp: new_World_def register_void Let_def split: if_splits)

lemma registerSectorType_shape:
  "distinct (map fst (sectorTypes W)) \<Longrightarrow> distinct (map fst (sectorTypes (registerSectorType key def W)))"
  "grid (registerSectorType key def W) = grid W"
  "height (registerSectorType key def W) = height W"
  "map_of (sectorTypes (registerSectorType key def W)) key \<noteq> None"
  by (simp_all add: registerSectorType_def distinct_update update_conv')

lemma setSector_shape:
  assumes "setSector W gx gy key = Inr (W', changed)"
  shows "length (grid W') = length (grid W)" and "height W' = height W"
    and "sectorTypes W' = sectorTypes W" and "defaultSector W' = defaultSector W"
  using assms by (auto simp: setSector_def split: if_splits option.splits)

subsection \<open>The registry survives a snapshot\<close>

lemma fold_update_map_of:
  "map_of (fold (\<lambda>p m. AList.update (fst p) (snd p) m) es acc)
     = fold (\<lambda>p m. m(fst p \<mapsto> snd p)) es (map_of acc)"
  by (induction es arbitrary: acc) (simp_all add: update_conv')

lemma fold_upd_distinct:
  "distinct (map fst es) \<Longrightarrow> fold (\<lambda>p m. m(fst p \<mapsto> snd p)) es m = m ++ map_of es"
proof (induction es arbitrary: m)
  case Nil
  then show ?case by simp
next
  case (Cons p es)
  from Cons.prems have "map_of es (fst p) = None"
    by (simp add: map_of_eq_None_iff)
  then have e: "m(fst p \<mapsto> snd p) ++ map_of es = m ++ map_of (p # es)"
    by (cases p) (auto simp: map_add_def fun_eq_iff split: option.splits)
  from Cons.prems have d: "distinct (map fst es)" by simp
  have "fold (\<lambda>p m. m(fst p \<mapsto> snd p)) (p # es) m
      = fold (\<lambda>p m. m(fst p \<mapsto> snd p)) es (m(fst p \<mapsto> snd p))"
    by simp
  also have "\<dots> = m(fst p \<mapsto> snd p) ++ map_of es" using d by (rule Cons.IH)
  also have "\<dots> = m ++ map_of (p # es)" by (rule e)
  finally show ?case .
qed

lemma set_entries_map_of:
  "distinct (map fst es) \<Longrightarrow> map_of (set_entries es) = map_of es"
  by (simp add: set_entries_def fold_update_map_of fold_upd_distinct)

lemma fold_update_distinct:
  "distinct (map fst acc)
   \<Longrightarrow> distinct (map fst (fold (\<lambda>p m. AList.update (fst p) (snd p) m) es acc))"
  by (induction es arbitrary: acc) (simp_all add: distinct_update)

lemma set_entries_distinct: "distinct (map fst (set_entries es))"
  by (simp add: set_entries_def fold_update_distinct)

lemma own_property_order_set: "set (own_property_order ps) = set ps"
  by (auto simp: own_property_order_def)

lemma own_property_order_distinct:
  assumes "distinct (map fst ps)"
  shows "distinct (map fst (own_property_order ps))"
proof -
  from assms have d: "distinct ps" and i: "inj_on fst (set ps)"
    by (simp_all add: distinct_map)
  have "distinct (own_property_order ps)"
    using d by (auto simp: own_property_order_def)
  moreover have "inj_on fst (set (own_property_order ps))"
    using i by (simp add: own_property_order_set)
  ultimately show ?thesis by (simp add: distinct_map)
qed

lemma own_property_order_map_of:
  "distinct (map fst ps) \<Longrightarrow> map_of (own_property_order ps) = map_of ps"
  by (simp add: map_of_inject_set own_property_order_distinct own_property_order_set)

lemma entries_roundtrip:
  assumes "distinct (map fst al)"
  shows "map_of (set_entries (Object_entries (Object_fromEntries al))) = map_of al"
proof -
  have "distinct (map fst (Object_fromEntries al))"
    by (simp add: Object_fromEntries_def own_property_order_distinct set_entries_distinct)
  then have "map_of (set_entries (Object_entries (Object_fromEntries al)))
      = map_of (Object_fromEntries al)"
    by (simp add: Object_entries_def set_entries_map_of)
  also have "\<dots> = map_of (set_entries al)"
    by (simp add: Object_fromEntries_def own_property_order_map_of set_entries_distinct)
  also have "\<dots> = map_of al" using assms by (rule set_entries_map_of)
  finally show ?thesis .
qed

lemma World_deserialize_distinct:
  "distinct (map fst (sectorTypes (World_deserialize W data)))"
  by (simp add: World_deserialize_def set_entries_distinct)

lemma getSector_cong:
  "width W' = width W \<Longrightarrow> height W' = height W \<Longrightarrow> defaultSector W' = defaultSector W \<Longrightarrow>
   grid W' = grid W \<Longrightarrow> map_of (sectorTypes W') = map_of (sectorTypes W) \<Longrightarrow>
   getSector W' x y = getSector W x y"
  by (simp add: getSector_def Let_def cong: option.case_cong)


subsection \<open>C1: \<open>getSector\<close> outside the grid and on unregistered keys\<close>

text \<open>
  As the claim states it, for every world: a world built with a default key that is
  not registered makes \<open>getSector\<close> return \<open>undefined\<close> (and \<open>isWalkable\<close> throw),
  outside the grid and on every cell; and once \<open>void\<close> is registered again as a
  walkable type, \<open>isWalkable\<close> is true outside the grid.
\<close>

theorem getSector_counterexample:
  "getSector rock_world (-1) (-1) = Inr None \<and>
   isWalkable rock_world (-1) (-1) = Inl TypeError \<and>
   getSector rock_world (1/2) (1/2) = Inr None \<and>
   isWalkable open_world (-1) (-1) = Inr True"
  by (simp add: getSector_def isWalkable_def rock_world_def open_world_def js_index_def
      floor_sector_def)

text \<open>
  C1 (amended). In a world whose default key is registered, with record \<open>d\<close>, and
  whose grid has a row for each \<open>gy\<close> below \<open>height\<close>, \<open>getSector\<close> returns a
  sector-type record for every pair of (finite) coordinates and does not throw: the
  record \<open>d\<close> when the floored coordinates are outside the grid, the record registered
  under the cell's key when the cell is inside, and \<open>d\<close> when that key is not
  registered. If \<open>d\<close> is not walkable, \<open>isWalkable\<close> is false outside the grid.
\<close>

theorem getSector_total:
  assumes reg: "map_of (sectorTypes W) (defaultSector W) = Some d"
      and rows: "height W \<le> int (length (grid W))"
  shows "\<exists>s. getSector W x y = Inr (Some s) \<and>
           s = (if out_of_bounds W x y then d
                else orElse (Option.bind (cellKey W \<lfloor>x\<rfloor> \<lfloor>y\<rfloor>) (map_of (sectorTypes W))) d) \<and>
           (out_of_bounds W x y \<and> \<not> walkable d \<longrightarrow> isWalkable W x y = Inr False)"
  using assms
  by (auto simp: getSector_def isWalkable_def out_of_bounds_def cellKey_def js_index_def
      orElse_def Let_def split: option.splits)

theorem getSector_total_witness:
  "map_of (sectorTypes lava_world) (defaultSector lava_world) = Some void_sector \<and>
   height lava_world \<le> int (length (grid lava_world)) \<and>
   getSector lava_world (-1) 0 = Inr (Some void_sector) \<and>
   isWalkable lava_world (-1) 0 = Inr False \<and>
   getSector lava_world (1/2) (1/2) = Inr (Some floor_sector) \<and>
   getSector lava_world (3/2) (1/2) = Inr (Some void_sector)"
proof -
  have reg: "map_of (sectorTypes lava_world) (defaultSector lava_world) = Some void_sector"
    by (simp add: lava_world_def)
  have rows: "height lava_world \<le> int (length (grid lava_world))"
    by (simp add: lava_world_def)
  have nw: "\<not> walkable void_sector" by (simp add: void_sector_def)
  have o1: "out_of_bounds lava_world (-1) 0" by (simp add: out_of_bounds_def)
  have o2: "\<not> out_of_bounds lava_world (1/2) (1/2)"
    by (simp add: out_of_bounds_def lava_world_def)
  have o3: "\<not> out_of_bounds lava_world (3/2) (1/2)"
    by (simp add: out_of_bounds_def lava_world_def)
  have k2: "cellKey lava_world \<lfloor>1/2::real\<rfloor> \<lfloor>1/2::real\<rfloor> = Some ''floor''"
    by (simp add: cellKey_def lava_world_def js_index_def)
  have k3: "cellKey lava_world \<lfloor>3/2::real\<rfloor> \<lfloor>1/2::real\<rfloor> = Some ''lava''"
    by (simp add: cellKey_def lava_world_def js_index_def)
  have m2: "map_of (sectorTypes lava_world) ''floor'' = Some floor_sector"
    and m3: "map_of (sectorTypes lava_world) ''lava'' = None"
    by (simp_all add: lava_world_def)
  from getSector_total [OF reg rows, of "-1" 0] o1 nw
  have a: "getSector lava_world (-1) 0 = Inr (Some void_sector)"
    and b: "isWalkable lava_world (-1) 0 = Inr False" by auto
  from getSector_total [OF reg rows, of "1/2" "1/2"] o2 k2 m2
  have c: "getSector lava_world (1/2) (1/2) = Inr (Some floor_sector)"
    by (auto simp: orElse_def)
  from getSector_total [OF reg rows, of "3/2" "1/2"] o3 k3 m3
  have d: "getSector lava_world (3/2) (1/2) = Inr (Some void_sector)"
    by (auto simp: orElse_def)
  from reg rows a b c d show ?thesis by simp
qed

subsection \<open>C7: serialize, then deserialize\<close>

text \<open>
  C7. For every sector grid (its registry a \<open>Map\<close>, so with distinct keys),
  deserializing its snapshot into any world gives a world on which \<open>getSector\<close>
  returns, for all coordinates inside and outside the grid, what it returns on the
  original.
\<close>

theorem serialize_roundtrip:
  "distinct (map fst (sectorTypes W)) \<Longrightarrow>
   getSector (World_deserialize W0 (World_serialize W)) x y = getSector W x y"
  by (rule getSector_cong)
     (simp_all add: World_deserialize_def World_serialize_def entries_roundtrip)

theorem serialize_roundtrip_witness:
  "distinct (map fst (sectorTypes lava_world)) \<and>
   getSector (World_deserialize rock_world (World_serialize lava_world)) (1/2) (1/2)
     = Inr (Some floor_sector) \<and>
   getSector (World_deserialize rock_world (World_serialize lava_world)) (3/2) (1/2)
     = Inr (Some void_sector) \<and>
   getSector (World_deserialize rock_world (World_serialize lava_world)) 7 (-3)
     = Inr (Some void_sector)"
proof -
  have d: "distinct (map fst (sectorTypes lava_world))" by (simp add: lava_world_def)
  have "getSector lava_world (1/2) (1/2) = Inr (Some floor_sector)"
    "getSector lava_world (3/2) (1/2) = Inr (Some void_sector)"
    "getSector lava_world 7 (-3) = Inr (Some void_sector)"
    by (simp_all add: getSector_def lava_world_def js_index_def)
  with d serialize_roundtrip [OF d, of rock_world] show ?thesis by simp
qed


subsection \<open>The solver returns\<close>

lemma getSector_defined:
  assumes "map_of (sectorTypes W) (defaultSector W) = Some d"
      and "height W \<le> int (length (grid W))"
  shows "\<exists>s. getSector W x y = Inr (Some s)"
  using assms
  by (auto simp: getSector_def js_index_def Let_def split: option.splits)

lemma isWalkable_defined:
  assumes "map_of (sectorTypes W) (defaultSector W) = Some d"
      and "height W \<le> int (length (grid W))"
  shows "\<exists>b. isWalkable W x y = Inr b"
  using getSector_defined [OF assms, of x y] by (auto simp: isWalkable_def)

lemma canOccupy_points_defined:
  assumes "map_of (sectorTypes W) (defaultSector W) = Some d"
      and "height W \<le> int (length (grid W))"
  shows "\<exists>b. canOccupy_points M W z ps = Inr b"
proof (induction ps)
  case Nil
  then show ?case by auto
next
  case (Cons p ps)
  obtain px py where p: "p = (px, py)" by (cases p)
  from getSector_defined [OF assms] obtain s where "getSector W px py = Inr (Some s)" by blast
  with Cons p show ?case by auto
qed

lemma canOccupy_defined:
  assumes "map_of (sectorTypes W) (defaultSector W) = Some d"
      and "height W \<le> int (length (grid W))"
  shows "\<exists>b. canOccupy M W x y r z = Inr b"
  unfolding canOccupy_def Let_def by (rule canOccupy_points_defined [OF assms])

lemma move_steps_defined:
  assumes "map_of (sectorTypes W) (defaultSector W) = Some d"
      and "height W \<le> int (length (grid W))"
  shows "\<exists>p. move_steps M W r z sx sy n x y = Inr p"
proof (induction n arbitrary: x y)
  case 0
  then show ?case by simp
next
  case (Suc n)
  obtain b1 where b1: "canOccupy M W (x + sx) (y + sy) (Some r) z = Inr b1"
    using canOccupy_defined [OF assms] by blast
  obtain b2 where b2: "canOccupy M W (x + sx) y (Some r) z = Inr b2"
    using canOccupy_defined [OF assms] by blast
  obtain b3 where b3: "canOccupy M W x (y + sy) (Some r) z = Inr b3"
    using canOccupy_defined [OF assms] by blast
  show ?case using b1 b2 b3 Suc.IH by (simp add: Let_def)
qed

lemma canOccupy_truthy:
  "canOccupy M W x y (Some (truthy_real r (defaultRadius M))) z = canOccupy M W x y r z"
  by (simp add: canOccupy_def truthy_real_def split: option.splits)

lemma move_defined:
  assumes "map_of (sectorTypes W) (defaultSector W) = Some d"
      and "height W \<le> int (length (grid W))"
  shows "\<exists>res. move M W e dx dy = Inr res"
proof -
  let ?r = "truthy_real (e_radius e) (defaultRadius M)"
  obtain b0 where b0: "canOccupy M W (e_x e + dx) (e_y e + dy) (Some ?r) (e_z e) = Inr b0"
    using canOccupy_defined [OF assms] by blast
  obtain b1 where b1: "canOccupy M W (e_x e + dx) (e_y e) (Some ?r) (e_z e) = Inr b1"
    using canOccupy_defined [OF assms] by blast
  obtain b3 where b3: "canOccupy M W (e_x e) (e_y e + dy) (Some ?r) (e_z e) = Inr b3"
    using canOccupy_defined [OF assms] by blast
  obtain p where p: "move_steps M W ?r (e_z e)
      (dx / of_int \<lceil>sqrt (dx * dx + dy * dy) / collisionStep M\<rceil>)
      (dy / of_int \<lceil>sqrt (dx * dx + dy * dy) / collisionStep M\<rceil>)
      (nat \<lceil>sqrt (dx * dx + dy * dy) / collisionStep M\<rceil>) (e_x e) (e_y e) = Inr p"
    using move_steps_defined [OF assms] by blast
  show ?thesis using b0 b1 b3 p
    by (cases p) (auto simp: move_def Let_def)
qed

lemma move_collided_only_if_still:
  assumes "move M W e dx dy = Inr res" and "collided res"
  shows "res_x res = e_x e \<and> res_y res = e_y e"
  using assms
  by (auto simp: move_def Let_def ebind_def split: sum.splits if_splits prod.splits)

subsection \<open>The corridor\<close>

lemma default_movement_built: "new_Movement no_movement_config = default_movement"
  by (simp add: new_Movement_def no_movement_config_def default_movement_def truthy_real_def)

lemma upto_0_3: "[0..3] = [0, 1, 2, 3 :: int]"
  by code_simp

lemma corridor_world_built:
  "ebind (new_World \<lparr>c_width = Some 4, c_height = Some 3, c_defaultSector = None\<rparr>) (\<lambda>W0.
   ebind (fillRect (registerSectorType ''wall'' wall_def (registerSectorType ''floor'' no_def W0))
            0 0 3 0 ''wall'') (\<lambda>W1.
   ebind (fillRect W1 0 1 3 1 ''floor'') (\<lambda>W2.
   fillRect W2 0 2 3 2 ''wall''))) = Inr corridor_world"
  by (simp add: new_World_def truthy_int_def truthy_string_def register_void register_floor
      register_wall fillRect_def fillRow_def js_index_def js_store_def corridor_world_def Let_def
      eval_nat_numeral upto_0_3)

lemma corridor_shape:
  "map_of (sectorTypes corridor_world) (defaultSector corridor_world) = Some void_sector"
  "height corridor_world \<le> int (length (grid corridor_world))"
  by (simp_all add: corridor_world_def)

lemma corridor_getSector_floor:
  assumes "0 \<le> px" "px < 4" "1 \<le> py" "py < 2"
  shows "getSector corridor_world px py = Inr (Some floor_sector)"
proof -
  from assms have fy: "\<lfloor>py\<rfloor> = 1" by linarith
  from assms have "0 \<le> \<lfloor>px\<rfloor>" "\<lfloor>px\<rfloor> < 4" by linarith+
  then have "\<lfloor>px\<rfloor> = 0 \<or> \<lfloor>px\<rfloor> = 1 \<or> \<lfloor>px\<rfloor> = 2 \<or> \<lfloor>px\<rfloor> = 3" by arith
  then show ?thesis using fy assms
    by (auto simp: getSector_def corridor_world_def js_index_def Let_def eval_nat_numeral)
qed

lemma corridor_getSector_wall:
  assumes "0 \<le> px" "px < 4" "0 \<le> py" "py < 1"
  shows "getSector corridor_world px py = Inr (Some wall_sector)"
proof -
  from assms have fy: "\<lfloor>py\<rfloor> = 0" by linarith
  from assms have "0 \<le> \<lfloor>px\<rfloor>" "\<lfloor>px\<rfloor> < 4" by linarith+
  then have "\<lfloor>px\<rfloor> = 0 \<or> \<lfloor>px\<rfloor> = 1 \<or> \<lfloor>px\<rfloor> = 2 \<or> \<lfloor>px\<rfloor> = 3" by arith
  then show ?thesis using fy assms
    by (auto simp: getSector_def corridor_world_def js_index_def Let_def eval_nat_numeral)
qed

text \<open>A circle of radius 0.2 fits where its centre keeps 0.2 away from both walls.\<close>

lemma corridor_canOccupy:
  assumes "0.2 \<le> px" "px + 0.2 < 4" "1.2 \<le> py" "py + 0.2 < 2"
  shows "canOccupy default_movement corridor_world px py (Some 0.2) (Some 0) = Inr True"
  using assms
  by (simp add: canOccupy_def truthy_real_def default_movement_def orElse_def
      corridor_getSector_floor floor_sector_def)

text \<open>It does not fit where its centre is less than 0.2 above the lower wall row.\<close>

lemma corridor_blocked:
  assumes "0.2 \<le> px" "px + 0.2 < 4" "1 \<le> py" "py < 1.2"
  shows "canOccupy default_movement corridor_world px py (Some 0.2) (Some 0) = Inr False"
proof -
  have "getSector corridor_world px py = Inr (Some floor_sector)"
    using assms by (intro corridor_getSector_floor) simp_all
  moreover have "getSector corridor_world (px - 0.2) (py - 0.2) = Inr (Some wall_sector)"
    using assms by (intro corridor_getSector_wall) simp_all
  ultimately show ?thesis
    by (simp add: canOccupy_def truthy_real_def default_movement_def orElse_def
      floor_sector_def wall_sector_def)
qed

subsection \<open>C8: straight motion along the corridor\<close>

text \<open>
  As the claim states it: at \<open>(1, 1)\<close> the entity stands on the line between the
  lower wall row and the corridor row, its circle reaches 0.2 into the wall, and
  neither the full step, nor the slide, nor any micro-step is accepted.
\<close>

theorem corridor_counterexample:
  "move default_movement corridor_world (body_at 1 1 0.2) 1 0
     = Inr \<lparr>res_x = 1, res_y = 1, collided = True, slideX = -1, slideY = 0\<rparr>"
proof -
  have a: "canOccupy default_movement corridor_world 2 1 (Some 0.2) (Some 0) = Inr False"
    by (rule corridor_blocked) simp_all
  have b: "canOccupy default_movement corridor_world (1 + 1/20) 1 (Some 0.2) (Some 0) = Inr False"
    by (rule corridor_blocked) simp_all
  have c: "canOccupy default_movement corridor_world 1 1 (Some 0.2) (Some 0) = Inr False"
    by (rule corridor_blocked) simp_all
  have steps: "move_steps default_movement corridor_world 0.2 (Some 0) (1/20) 0 20 1 1 = Inr (1, 1)"
  proof -
    have "(20::nat) = Suc 19" by simp
    then show ?thesis using b c by (simp only: move_steps.simps) (simp add: Let_def)
  qed
  show ?thesis using a steps
    apply (simp add: move_def body_at_def truthy_real_def Let_def)
    apply (simp add: default_movement_def)
    done
qed

lemma cell_getSector:
  assumes "0 \<le> gx" "gx < width W" "0 \<le> gy" "gy < height W"
      and "cellKey W gx gy = Some key" and "map_of (sectorTypes W) key = Some s"
      and "\<lfloor>px\<rfloor> = gx" and "\<lfloor>py\<rfloor> = gy"
  shows "getSector W px py = Inr (Some s)"
  using assms
  by (auto simp: getSector_def cellKey_def Let_def split: option.splits Option.bind_splits)

text \<open>
  C8 (amended). Take a grid in which the cell \<open>(2, 1)\<close> lies inside the bounds
  (\<open>width > 2\<close>, \<open>height > 1\<close>) and holds a registered sector type that is walkable and
  whose floor is not above the solver's \<open>maxStepHeight\<close>, as the corridor along row 1
  between two wall rows has it. An entity of radius 0.2 and \<open>z = 0\<close> at
  \<open>(1.5, 1.5)\<close>, the middle of the cell \<open>(1, 1)\<close>, that calls \<open>move\<close> with \<open>dx = 1\<close>,
  \<open>dy = 0\<close> ends at \<open>(2.5, 1.5)\<close>, the middle of the cell \<open>(2, 1)\<close>, with
  \<open>collided = false\<close> and \<open>slideX = slideY = 0\<close>.
\<close>

theorem corridor_straight:
  assumes "2 < width W" and "1 < height W"
      and "cellKey W 2 1 = Some key" and "map_of (sectorTypes W) key = Some s"
      and "walkable s" and "floor_s s \<le> maxStepHeight M"
  shows "move M W (body_at (3/2) (3/2) (2/10)) 1 0
     = Inr \<lparr>res_x = 5/2, res_y = 3/2, collided = False, slideX = 0, slideY = 0\<rparr>"
proof -
  have g: "getSector W px py = Inr (Some s)" if "2 \<le> px" "px < 3" "1 \<le> py" "py < 2" for px py
  proof -
    from that have "\<lfloor>px\<rfloor> = 2" "\<lfloor>py\<rfloor> = 1" by linarith+
    with assms show ?thesis by (intro cell_getSector [where gx = 2 and gy = 1 and key = key]) simp_all
  qed
  have "canOccupy M W (5/2) (3/2) (Some (2/10)) (Some 0) = Inr True"
    using assms(5,6) by (simp add: canOccupy_def truthy_real_def orElse_def g)
  then show ?thesis
    by (simp add: move_def body_at_def truthy_real_def)
qed

theorem corridor_straight_witness:
  "2 < width corridor_world \<and> 1 < height corridor_world \<and>
   cellKey corridor_world 2 1 = Some ''floor'' \<and>
   map_of (sectorTypes corridor_world) ''floor'' = Some floor_sector \<and>
   walkable floor_sector \<and> floor_s floor_sector \<le> maxStepHeight default_movement \<and>
   move default_movement corridor_world (body_at (3/2) (3/2) (2/10)) 1 0
     = Inr \<lparr>res_x = 5/2, res_y = 3/2, collided = False, slideX = 0, slideY = 0\<rparr>"
proof -
  have a: "2 < width corridor_world" "1 < height corridor_world"
    "cellKey corridor_world 2 1 = Some ''floor''"
    "map_of (sectorTypes corridor_world) ''floor'' = Some floor_sector"
    by (simp_all add: corridor_world_def cellKey_def js_index_def eval_nat_numeral)
  have b: "walkable floor_sector" "floor_s floor_sector \<le> maxStepHeight default_movement"
    by (simp_all add: floor_sector_def default_movement_def)
  from corridor_straight [OF a b] a b show ?thesis by simp
qed

subsection \<open>C3: a move by nothing\<close>

text \<open>
  As the claim states it: the entity of the corridor scenario at \<open>(1, 1)\<close> cannot
  occupy its own position, and \<open>move(entity, 0, 0)\<close> reports \<open>collided = true\<close>.
\<close>

theorem move_zero_counterexample:
  "move default_movement corridor_world (body_at 1 1 0.2) 0 0
     = Inr \<lparr>res_x = 1, res_y = 1, collided = True, slideX = 0, slideY = 0\<rparr>"
proof -
  have "canOccupy default_movement corridor_world 1 1 (Some 0.2) (Some 0) = Inr False"
    by (rule corridor_blocked) simp_all
  then show ?thesis
    by (simp add: move_def body_at_def truthy_real_def default_movement_def)
qed

text \<open>
  C3 (amended). On a world whose default sector key is registered and whose grid has a
  row for every index below \<open>height\<close>, \<open>move(entity, 0, 0)\<close> returns the entity's
  position unchanged with \<open>slideX = slideY = 0\<close>, and its \<open>collided\<close> flag is the
  negation of what \<open>canOccupy\<close> returns for the entity's position, radius and \<open>z\<close>:
  false exactly when the entity can occupy its own position. For any displacement,
  \<open>move\<close> returns, and \<open>collided\<close> is true only if the returned position is the
  entity's position.
\<close>

theorem move_zero:
  assumes reg: "map_of (sectorTypes W) (defaultSector W) = Some d"
      and rows: "height W \<le> int (length (grid W))"
  shows "(\<exists>res free. move M W e 0 0 = Inr res \<and>
            canOccupy M W (e_x e) (e_y e) (e_radius e) (e_z e) = Inr free \<and>
            res_x res = e_x e \<and> res_y res = e_y e \<and> slideX res = 0 \<and> slideY res = 0 \<and>
            collided res = (\<not> free)) \<and>
         (\<exists>res. move M W e dx dy = Inr res \<and>
            (collided res \<longrightarrow> res_x res = e_x e \<and> res_y res = e_y e))"
proof
  obtain free where f: "canOccupy M W (e_x e) (e_y e) (e_radius e) (e_z e) = Inr free"
    using canOccupy_defined [OF assms] by blast
  then have "canOccupy M W (e_x e) (e_y e)
      (Some (truthy_real (e_radius e) (defaultRadius M))) (e_z e) = Inr free"
    by (simp add: canOccupy_truthy)
  then have "move M W e 0 0 = Inr \<lparr>res_x = e_x e, res_y = e_y e, collided = \<not> free,
      slideX = 0, slideY = 0\<rparr>"
    by (simp add: move_def Let_def)
  with f show "\<exists>res free. move M W e 0 0 = Inr res \<and>
            canOccupy M W (e_x e) (e_y e) (e_radius e) (e_z e) = Inr free \<and>
            res_x res = e_x e \<and> res_y res = e_y e \<and> slideX res = 0 \<and> slideY res = 0 \<and>
            collided res = (\<not> free)" by simp
next
  obtain res where r: "move M W e dx dy = Inr res"
    using move_defined [OF assms] by blast
  then have "collided res \<longrightarrow> res_x res = e_x e \<and> res_y res = e_y e"
    using move_collided_only_if_still by blast
  with r show "\<exists>res. move M W e dx dy = Inr res \<and>
            (collided res \<longrightarrow> res_x res = e_x e \<and> res_y res = e_y e)" by blast
qed

theorem move_zero_witness:
  "map_of (sectorTypes corridor_world) (defaultSector corridor_world) = Some void_sector \<and>
   height corridor_world \<le> int (length (grid corridor_world)) \<and>
   canOccupy default_movement corridor_world (3/2) (3/2) (Some 0.2) (Some 0) = Inr True \<and>
   move default_movement corridor_world (body_at (3/2) (3/2) 0.2) 0 0
     = Inr \<lparr>res_x = 3/2, res_y = 3/2, collided = False, slideX = 0, slideY = 0\<rparr>"
proof -
  have free: "canOccupy default_movement corridor_world (3/2) (3/2) (Some 0.2) (Some 0) = Inr True"
    by (rule corridor_canOccupy) simp_all
  from move_zero [OF corridor_shape, of default_movement "body_at (3/2) (3/2) 0.2"]
  obtain res fr where m: "move default_movement corridor_world (body_at (3/2) (3/2) 0.2) 0 0 = Inr res"
    and c: "canOccupy default_movement corridor_world (e_x (body_at (3/2) (3/2) 0.2))
              (e_y (body_at (3/2) (3/2) 0.2)) (e_radius (body_at (3/2) (3/2) 0.2))
              (e_z (body_at (3/2) (3/2) 0.2)) = Inr fr"
    and r: "res_x res = e_x (body_at (3/2) (3/2) 0.2)" "res_y res = e_y (body_at (3/2) (3/2) 0.2)"
      "slideX res = 0" "slideY res = 0" "collided res = (\<not> fr)"
    by blast
  from c free have "fr" by (simp add: body_at_def)
  with r have "res = \<lparr>res_x = 3/2, res_y = 3/2, collided = False, slideX = 0, slideY = 0\<rparr>"
    by (simp add: body_at_def)
  with m free corridor_shape show ?thesis by simp
qed

subsection \<open>C10: a radius of zero\<close>

text \<open>
  C10. A collision radius of exactly 0 given to \<open>canOccupy\<close>, or carried by the
  entity given to \<open>move\<close>, is replaced by the solver's default radius: the call
  behaves as the call with the default radius (and as \<open>canOccupy\<close> with no radius),
  not as a test of the single point. A solver built without configuration has the
  default radius 0.2.
\<close>

theorem zero_radius_is_default:
  "canOccupy M W x y (Some 0) z = canOccupy M W x y (Some (defaultRadius M)) z \<and>
   canOccupy M W x y (Some 0) z = canOccupy M W x y None z \<and>
   move M W (e\<lparr>e_radius := Some 0\<rparr>) dx dy
     = move M W (e\<lparr>e_radius := Some (defaultRadius M)\<rparr>) dx dy \<and>
   defaultRadius (new_Movement no_movement_config) = 0.2"
  by (simp add: canOccupy_def move_def truthy_real_def new_Movement_def no_movement_config_def)

text \<open>
  In the corridor the point \<open>(1.5, 1.1)\<close> is walkable, yet the test with radius 0
  fails there, as the test with radius 0.2 does.
\<close>

theorem zero_radius_is_default_witness:
  "isWalkable corridor_world (3/2) (11/10) = Inr True \<and>
   canOccupy default_movement corridor_world (3/2) (11/10) (Some 0) (Some 0) = Inr False"
proof -
  have "getSector corridor_world (3/2) (11/10) = Inr (Some floor_sector)"
    by (rule corridor_getSector_floor) simp_all
  then have w: "isWalkable corridor_world (3/2) (11/10) = Inr True"
    by (simp add: isWalkable_def floor_sector_def)
  have dr: "defaultRadius default_movement = 0.2" by (simp add: default_movement_def)
  have "canOccupy default_movement corridor_world (3/2) (11/10) (Some 0) (Some 0)
      = canOccupy default_movement corridor_world (3/2) (11/10)
          (Some (defaultRadius default_movement)) (Some 0)"
    by (rule zero_radius_is_default [THEN conjunct1])
  also have "\<dots> = canOccupy default_movement corridor_world (3/2) (11/10) (Some 0.2) (Some 0)"
    by (simp only: dr)
  also have "\<dots> = Inr False"
    by (rule corridor_blocked) simp_all
  finally have "canOccupy default_movement corridor_world (3/2) (11/10) (Some 0) (Some 0) = Inr False" .
  with w show ?thesis by simp
qed


subsection \<open>The visibility update: when it returns, and what it discovers\<close>

lemma set_set_add [simp]: "set (set_add k s) = insert k (set s)"
  by (auto simp: set_add_def)

text \<open>With a positive step every ray returns or throws.\<close>

lemma castVisibilityRay_loop_returns:
  assumes "0 < step"
  shows "\<exists>r. castVisibilityRay_loop W vd step dx dy d x y vis = Some r"
proof (induction "nat \<lceil>(vd - d) / step\<rceil>" arbitrary: d x y vis rule: less_induct)
  case less
  show ?case
  proof (cases "d < vd")
    case False
    then show ?thesis by (subst castVisibilityRay_loop.simps) simp
  next
    case True
    from assms have np: "\<not> step \<le> 0" by simp
    have m: "nat \<lceil>(vd - (d + step)) / step\<rceil> < nat \<lceil>(vd - d) / step\<rceil>"
      using True np by (rule ceiling_step_less)
    from less [OF m] obtain r where
      r: "castVisibilityRay_loop W vd step dx dy (d + step) (x + dx) (y + dy)
            (set_add (\<lfloor>x + dx\<rfloor>, \<lfloor>y + dy\<rfloor>) vis) = Some r" by blast
    show ?thesis
      by (subst castVisibilityRay_loop.simps) (simp add: True r split: sum.splits)
  qed
qed

lemmas castVisibilityRay_loop_induct =
  castVisibilityRay_loop.raw_induct
    [where xa = "((((((((W, vd), step), dx), dy), d), x), y), vis)", unfolded prod.case, rotated,
     consumes 1, case_names step]
  for W vd step dx dy d x y vis

text \<open>A ray throws only where \<open>isWalkable\<close> throws.\<close>

lemma castVisibilityRay_loop_throws:
  assumes "castVisibilityRay_loop W vd step dx dy d x y vis = Some r"
      and "snd r = Some e"
  shows "\<exists>px py. isWalkable W px py = Inl e"
  using assms
proof (induction rule: castVisibilityRay_loop_induct)
  case (step loop W vd step dx dy d x y vis r)
  show ?case
  proof (cases "d < vd")
    case False
    with step(2,3) show ?thesis by auto
  next
    case True
    show ?thesis
    proof (cases "isWalkable W (x + dx) (y + dy)")
      case (Inl e')
      with True step(2,3) have "e' = e" by auto
      with Inl show ?thesis by blast
    next
      case (Inr w)
      show ?thesis
      proof (cases w)
        case False
        with True Inr step(2,3) show ?thesis by auto
      next
        case wt: True
        with True Inr step(2) have "loop W vd step dx dy (d + step) (x + dx) (y + dy)
            (set_add (\<lfloor>x + dx\<rfloor>, \<lfloor>y + dy\<rfloor>) vis) = Some r" by simp
        from step(1) [OF this step(3)] show ?thesis .
      qed
    qed
  qed
qed

lemma castVisibilityRays_returns:
  assumes "0 < rayStep V"
  shows "\<exists>r. castVisibilityRays W V x y startAngle fov rayCount idx vis = Some r"
proof (induction idx arbitrary: vis)
  case Nil
  then show ?case by simp
next
  case (Cons i idx)
  obtain r where r: "castVisibilityRay W V x y (startAngle + (real i / of_int rayCount) * fov) vis = Some r"
    unfolding castVisibilityRay_def using castVisibilityRay_loop_returns [OF assms] by blast
  show ?case
  proof (cases "snd r")
    case None
    with r Cons [of "fst r"] show ?thesis by simp
  next
    case (Some e)
    with r show ?thesis by simp
  qed
qed

lemma castVisibilityRays_throws:
  assumes "castVisibilityRays W V x y startAngle fov rayCount idx vis = Some r"
      and "snd r = Some e"
  shows "\<exists>px py. isWalkable W px py = Inl e"
  using assms
proof (induction idx arbitrary: vis)
  case Nil
  then show ?case by auto
next
  case (Cons i idx)
  from Cons.prems(1) obtain r1 where
    r1: "castVisibilityRay W V x y (startAngle + (real i / of_int rayCount) * fov) vis = Some r1"
    by (cases "castVisibilityRay W V x y (startAngle + (real i / of_int rayCount) * fov) vis") auto
  show ?case
  proof (cases "snd r1")
    case None
    with r1 Cons.prems(1)
    have "castVisibilityRays W V x y startAngle fov rayCount idx (fst r1) = Some r" by simp
    from Cons.IH [OF this Cons.prems(2)] show ?thesis .
  next
    case (Some e1)
    with r1 Cons.prems have "r1 = r" by simp
    with r1 Cons.prems(2) show ?thesis
      unfolding castVisibilityRay_def by (blast intro: castVisibilityRay_loop_throws)
  qed
qed

text \<open>The discovery pass.\<close>

lemma discover_new_seen:
  "k \<in> set prev \<Longrightarrow>
   discover_new W prev (k # keys) disc newly = discover_new W prev keys disc newly"
  by simp

lemma discover_new_fresh:
  "k \<notin> set prev \<Longrightarrow> isWalkable W (of_int (fst k)) (of_int (snd k)) = Inr w \<Longrightarrow>
   discover_new W prev (k # keys) disc newly =
     (if w \<and> k \<notin> set disc
      then discover_new W prev keys (set_add k disc) (newly @ [k])
      else discover_new W prev keys disc newly)"
  by simp

lemma discover_new_stops:
  "k \<notin> set prev \<Longrightarrow> isWalkable W (of_int (fst k)) (of_int (snd k)) = Inl e \<Longrightarrow>
   discover_new W prev (k # keys) disc newly = (disc, newly, Some e)"
  by simp

lemma discover_new_grows:
  "set disc \<subseteq> set (fst (discover_new W prev keys disc newly))"
proof (induction keys arbitrary: disc newly)
  case Nil
  then show ?case by simp
next
  case (Cons k keys)
  show ?case
  proof (cases "k \<in> set prev")
    case True
    then show ?thesis using Cons [of disc newly] by (simp only: discover_new_seen)
  next
    case False
    show ?thesis
    proof (cases "isWalkable W (of_int (fst k)) (of_int (snd k))")
      case (Inl e)
      then show ?thesis by (simp only: discover_new_stops [OF False Inl]) simp
    next
      case (Inr w)
      show ?thesis
      proof (cases "w \<and> k \<notin> set disc")
        case True
        have "set disc \<subseteq> set (set_add k disc)" by auto
        also have "\<dots> \<subseteq> set (fst (discover_new W prev keys (set_add k disc) (newly @ [k])))"
          by (rule Cons)
        finally show ?thesis
          using True discover_new_fresh [OF False Inr, of keys disc newly]
          by (simp del: discover_new.simps)
      next
        case nt: False
        then show ?thesis
          using Cons [of disc newly] discover_new_fresh [OF False Inr, of keys disc newly]
          by (auto simp del: discover_new.simps)
      qed
    qed
  qed
qed

lemma discover_new_throws:
  assumes "snd (snd (discover_new W prev keys disc newly)) = Some e"
  shows "\<exists>px py. isWalkable W px py = Inl e"
  using assms
proof (induction keys arbitrary: disc newly)
  case Nil
  then show ?case by simp
next
  case (Cons k keys)
  show ?case
  proof (cases "k \<in> set prev")
    case True
    with Cons.prems have "snd (snd (discover_new W prev keys disc newly)) = Some e"
      by (simp only: discover_new_seen)
    then show ?thesis by (rule Cons.IH)
  next
    case False
    show ?thesis
    proof (cases "isWalkable W (of_int (fst k)) (of_int (snd k))")
      case (Inl e')
      with Cons.prems have "e' = e" by (simp only: discover_new_stops [OF False Inl]) simp
      with Inl show ?thesis by blast
    next
      case (Inr w)
      show ?thesis
      proof (cases "w \<and> k \<notin> set disc")
        case True
        with Cons.prems discover_new_fresh [OF False Inr, of keys disc newly]
        have "snd (snd (discover_new W prev keys (set_add k disc) (newly @ [k]))) = Some e"
          by (simp del: discover_new.simps)
        then show ?thesis by (rule Cons.IH)
      next
        case nt: False
        with Cons.prems discover_new_fresh [OF False Inr, of keys disc newly]
        have "snd (snd (discover_new W prev keys disc newly)) = Some e"
          by (simp del: discover_new.simps)
        then show ?thesis by (rule Cons.IH)
      qed
    qed
  qed
qed

lemma discover_new_spec:
  assumes "discover_new W prev keys disc newly = (disc', newly', None)"
  shows "set disc' = set disc \<union>
           {k \<in> set keys. k \<notin> set prev \<and> isWalkable W (of_int (fst k)) (of_int (snd k)) = Inr True}"
  using assms
proof (induction keys arbitrary: disc newly)
  case Nil
  then show ?case by simp
next
  case (Cons k keys)
  let ?w = "isWalkable W (of_int (fst k)) (of_int (snd k))"
  define P where "P = (\<lambda>k. k \<notin> set prev \<and> isWalkable W (of_int (fst k)) (of_int (snd k)) = Inr True)"
  define R where "R = {j \<in> set keys. P j}"
  have split: "{j \<in> set (k # keys). P j} = (if P k then insert k R else R)"
    by (auto simp: R_def)
  have IH: "set disc' = set d \<union> R" if "discover_new W prev keys d n = (disc', newly', None)" for d n
    using Cons.IH [OF that] by (simp add: R_def P_def)
  have goal: "set disc' = set disc \<union> {j \<in> set (k # keys). P j}"
  proof (cases "k \<in> set prev")
    case True
    with Cons.prems have "discover_new W prev keys disc newly = (disc', newly', None)"
      by (simp only: discover_new_seen)
    then have "set disc' = set disc \<union> R" by (rule IH)
    moreover from True have "\<not> P k" by (simp add: P_def)
    ultimately show ?thesis by (simp only: split if_False)
  next
    case False
    show ?thesis
    proof (cases ?w)
      case (Inl e)
      from discover_new_stops [OF False Inl, of keys disc newly] Cons.prems
      show ?thesis by simp
    next
      case (Inr w)
      show ?thesis
      proof (cases "w \<and> k \<notin> set disc")
        case True
        with discover_new_fresh [OF False Inr, of keys disc newly] Cons.prems
        have "discover_new W prev keys (set_add k disc) (newly @ [k]) = (disc', newly', None)"
          by (simp del: discover_new.simps)
        then have "set disc' = set (set_add k disc) \<union> R" by (rule IH)
        moreover from True Inr False have "P k" by (simp add: P_def)
        ultimately show ?thesis by (simp only: split if_True set_set_add) blast
      next
        case nt: False
        with discover_new_fresh [OF False Inr, of keys disc newly] Cons.prems
        have "discover_new W prev keys disc newly = (disc', newly', None)"
          by (simp del: discover_new.simps)
        then have "set disc' = set disc \<union> R" by (rule IH)
        moreover from nt Inr have "P k \<Longrightarrow> k \<in> set disc" by (simp add: P_def)
        ultimately show ?thesis by (cases "P k") (auto simp only: split if_True if_False)
      qed
    qed
  qed
  then show ?case by (simp only: P_def)
qed

text \<open>
  The two ways an \<open>update\<close> call ends: the sweep throws, and \<open>discovered\<close> is as it
  was; or the sweep returns and the discovery pass runs, to its end or to an exception.
\<close>

lemma Visibility_update_cases:
  assumes "Visibility_update W V x y a f = Some (V', out)"
  obtains (sweep_threw) vis e where
      "V' = V\<lparr>currentlyVisible := vis\<rparr>" and "out = Inl e"
      and "\<exists>px py. isWalkable W px py = Inl e"
    | (swept) vis disc newly err where
      "discover_new W (currentlyVisible V) vis (discovered V) [] = (disc, newly, err)"
      and "V' = V\<lparr>currentlyVisible := vis, discovered := disc\<rparr>"
      and "out = (case err of Some e \<Rightarrow> Inl e | None \<Rightarrow> Inr newly)"
proof -
  let ?fov = "orElse f (pi * 2)"
  let ?n = "\<lceil>fovRayCount V * (?fov / (pi * 2))\<rceil>"
  let ?sweep = "castVisibilityRays W V x y (orElse a 0 - ?fov / 2) ?fov ?n [0..<nat ?n] []"
  from assms obtain vis err where s: "?sweep = Some (vis, err)"
    by (cases ?sweep) (auto simp: Visibility_update_def Let_def)
  show thesis
  proof (cases err)
    case (Some e)
    with s assms have "V' = V\<lparr>currentlyVisible := vis\<rparr>" "out = Inl e"
      by (simp_all add: Visibility_update_def Let_def)
    moreover from castVisibilityRays_throws [OF s] Some
    have "\<exists>px py. isWalkable W px py = Inl e" by simp
    ultimately show ?thesis by (rule sweep_threw)
  next
    case None
    obtain disc newly err' where
      d: "discover_new W (currentlyVisible V) vis (discovered V) [] = (disc, newly, err')"
      by (cases "discover_new W (currentlyVisible V) vis (discovered V) []") auto
    with s None assms have "V' = V\<lparr>currentlyVisible := vis, discovered := disc\<rparr>"
      "out = (case err' of Some e \<Rightarrow> Inl e | None \<Rightarrow> Inr newly)"
      by (auto simp add: Visibility_update_def Let_def split: option.splits)
    with d show ?thesis by (rule swept)
  qed
qed

lemma Visibility_update_returns:
  assumes "0 < rayStep V"
  shows "\<exists>r. Visibility_update W V x y a f = Some r"
proof -
  let ?fov = "orElse f (pi * 2)"
  let ?n = "\<lceil>fovRayCount V * (?fov / (pi * 2))\<rceil>"
  obtain r where "castVisibilityRays W V x y (orElse a 0 - ?fov / 2) ?fov ?n [0..<nat ?n] [] = Some r"
    using castVisibilityRays_returns [OF assms] by blast
  then show ?thesis
    by (auto simp: Visibility_update_def Let_def split: option.splits prod.splits)
qed

lemma Visibility_update_grows:
  assumes "Visibility_update W V x y a f = Some (V', out)"
  shows "set (discovered V) \<subseteq> set (discovered V')"
  using assms
proof (cases rule: Visibility_update_cases)
  case (sweep_threw vis e)
  then show ?thesis by simp
next
  case (swept vis disc newly err)
  with discover_new_grows [of "discovered V" W "currentlyVisible V" vis "[]"]
  show ?thesis by simp
qed

lemma Visibility_update_spec:
  assumes "Visibility_update W V x y a f = Some (V', Inr newly)"
  shows "set (discovered V') = set (discovered V) \<union>
           {k \<in> set (currentlyVisible V'). k \<notin> set (currentlyVisible V)
              \<and> isWalkable W (of_int (fst k)) (of_int (snd k)) = Inr True}"
  using assms
proof (cases rule: Visibility_update_cases)
  case (sweep_threw vis e)
  then show ?thesis by simp
next
  case (swept vis disc nw err)
  then have "err = None" by (cases err) simp_all
  with swept(1) have "discover_new W (currentlyVisible V) vis (discovered V) [] = (disc, nw, None)"
    by simp
  from discover_new_spec [OF this] swept(2) show ?thesis by simp
qed

text \<open>
  On a world whose default key is registered and whose grid has its rows \<open>isWalkable\<close>
  returns, so that no \<open>update\<close> call throws.
\<close>

lemma Visibility_update_no_throw:
  assumes "map_of (sectorTypes W) (defaultSector W) = Some d0"
      and "height W \<le> int (length (grid W))"
      and "Visibility_update W V x y a f = Some (V', out)"
  shows "\<exists>newly. out = Inr newly"
proof -
  have w: "isWalkable W px py \<noteq> Inl e" for px py e
    using isWalkable_defined [OF assms(1,2), of px py] by auto
  from assms(3) show ?thesis
  proof (cases rule: Visibility_update_cases)
    case (sweep_threw vis e)
    with w show ?thesis by blast
  next
    case (swept vis disc newly err)
    show ?thesis
    proof (cases err)
      case None
      with swept(3) show ?thesis by simp
    next
      case (Some e)
      with swept(1) have "snd (snd (discover_new W (currentlyVisible V) vis (discovered V) [])) = Some e"
        by simp
      from discover_new_throws [OF this] w show ?thesis by blast
    qed
  qed
qed

text \<open>The strip worlds, the engine on them, and the updates evaluated.\<close>

lemma vis_world2_built: "setSector vis_world1 1 0 ''floor'' = Inr (vis_world2, True)"
  by (simp add: setSector_def vis_world1_def vis_world2_def js_index_def js_store_def)

lemma vis_world3_built: "setSector vis_world2 0 0 ''wall'' = Inr (vis_world3, True)"
  by (simp add: setSector_def vis_world1_def vis_world2_def vis_world3_def js_index_def js_store_def)

lemma upto_0_2: "[0..2] = [0, 1, 2 :: int]"
  by code_simp

lemma vis_isWalkable1:
  "isWalkable vis_world1 0 0 = Inr True" "isWalkable vis_world1 1 0 = Inr False"
  "isWalkable vis_world1 2 0 = Inr False"
  "isWalkable vis_world1 1 (1/2) = Inr False"
  by (simp_all add: isWalkable_def getSector_def vis_world1_def js_index_def
      floor_sector_def wall_sector_def void_sector_def)

lemma vis_isWalkable2:
  "isWalkable vis_world2 1 0 = Inr True" "isWalkable vis_world2 2 0 = Inr False"
  "isWalkable vis_world2 1 (1/2) = Inr True" "isWalkable vis_world2 (3/2) (1/2) = Inr True"
  "isWalkable vis_world2 2 (1/2) = Inr False"
  by (simp_all add: isWalkable_def getSector_def vis_world1_def vis_world2_def js_index_def
      floor_sector_def wall_sector_def void_sector_def)

lemma vis_isWalkable3:
  "isWalkable vis_world3 1 0 = Inr True" "isWalkable vis_world3 2 0 = Inr False"
  "isWalkable vis_world3 1 (1/2) = Inr True" "isWalkable vis_world3 (3/2) (1/2) = Inr True"
  "isWalkable vis_world3 2 (1/2) = Inr False"
  by (simp_all add: isWalkable_def getSector_def vis_world1_def vis_world3_def js_index_def
      floor_sector_def wall_sector_def void_sector_def)

lemma fog0_built:
  "new_Visibility vis_world1 \<lparr>c_viewDistance = Some 2, c_rayStep = Some (1/2),
     c_fovRayCount = Some 1, c_losCacheTimeout = None\<rparr> = Inr fog0"
proof -
  have "width vis_world1 = 3" "height vis_world1 = 1" by (simp_all add: vis_world1_def)
  then have "countWalkable vis_world1 = Inr 1"
    by (simp add: countWalkable_def upto_0_2 vis_isWalkable1)
  then show ?thesis by (simp add: new_Visibility_def truthy_real_def fog0_def)
qed


lemma sweep1:
  "castVisibilityRay vis_world1 fog0 (1/2) (1/2) 0 [] = Some ([(1, 0)], None)"
  by (simp add: castVisibilityRay_def fog0_def vis_isWalkable1 set_add_def
      castVisibilityRay_loop.simps)

lemma sweep2:
  "castVisibilityRay vis_world2 fog0 (1/2) (1/2) 0 [] = Some ([(1, 0), (2, 0)], None)"
  by (simp add: castVisibilityRay_def fog0_def vis_isWalkable2 set_add_def
      castVisibilityRay_loop.simps)

lemma update1:
  "Visibility_update vis_world1 fog0 (1/2) (1/2) (Some pi) None = Some (fog1, Inr [])"
proof -
  have s: "castVisibilityRay vis_world1 fog0 (1/2) (1/2) 0 [] = Some ([(1, 0)], None)" by (rule sweep1)
  have c: "currentlyVisible fog0 = []" "discovered fog0 = []" "fovRayCount fog0 = 1"
    by (simp_all add: fog0_def)
  show ?thesis
    by (simp add: Visibility_update_def orElse_def c s vis_isWalkable1 Let_def fog1_def)
qed

lemma update2:
  "Visibility_update vis_world2 fog1 (1/2) (1/2) (Some pi) None = Some (fog2, Inr [])"
proof -
  have s: "castVisibilityRay vis_world2 fog1 (1/2) (1/2) 0 [] = Some ([(1, 0), (2, 0)], None)"
    using sweep2 by (simp add: castVisibilityRay_def fog1_def fog0_def)
  have c: "currentlyVisible fog1 = [(1, 0)]" "discovered fog1 = []" "fovRayCount fog1 = 1"
    by (simp_all add: fog1_def fog0_def)
  show ?thesis
    by (simp add: Visibility_update_def orElse_def c s vis_isWalkable2 Let_def)
       (simp add: fog2_def fog1_def fog0_def)
qed

lemma update_fresh2:
  "Visibility_update vis_world2 fog0 (1/2) (1/2) (Some pi) None = Some (fog3, Inr [(1, 0)])"
proof -
  have s: "castVisibilityRay vis_world2 fog0 (1/2) (1/2) 0 [] = Some ([(1, 0), (2, 0)], None)"
    by (rule sweep2)
  have c: "currentlyVisible fog0 = []" "discovered fog0 = []" "fovRayCount fog0 = 1"
    by (simp_all add: fog0_def)
  show ?thesis
    by (simp add: Visibility_update_def orElse_def c s vis_isWalkable2 Let_def set_add_def fog3_def)
qed

lemma update3:
  "Visibility_update vis_world3 fog3 (1/2) (1/2) (Some pi) None = Some (fog3, Inr [])"
proof -
  have s: "castVisibilityRay vis_world3 fog3 (1/2) (1/2) 0 [] = Some ([(1, 0), (2, 0)], None)"
    by (simp add: castVisibilityRay_def fog3_def fog0_def vis_isWalkable3 set_add_def
        castVisibilityRay_loop.simps)
  have c: "currentlyVisible fog3 = [(1, 0), (2, 0)]" "discovered fog3 = [(1, 0)]" "fovRayCount fog3 = 1"
    by (simp_all add: fog3_def fog0_def)
  show ?thesis
    by (simp add: Visibility_update_def orElse_def c s Let_def)
qed

text \<open>
  From \<open>(1.5, 0.5)\<close> the ray of \<open>update(1.5, 0.5)\<close> runs along the strip to the left and
  leaves the grid: the cell \<open>(0, 0)\<close> is new and walkable.
\<close>

lemma vis_isWalkable2_left:
  "isWalkable vis_world2 (1/2) (1/2) = Inr True" "isWalkable vis_world2 0 (1/2) = Inr True"
  "isWalkable vis_world2 (- (1/2)) (1/2) = Inr False" "isWalkable vis_world2 0 0 = Inr True"
  "isWalkable vis_world2 (-1) 0 = Inr False"
  by (simp_all add: isWalkable_def getSector_def vis_world1_def vis_world2_def js_index_def
      floor_sector_def wall_sector_def void_sector_def)

lemma update4:
  "Visibility_update vis_world2 fog3 (3/2) (1/2) None None = Some (fog4, Inr [(0, 0)])"
proof -
  have s: "castVisibilityRay vis_world2 fog3 (3/2) (1/2) (- pi) []
             = Some ([(1, 0), (0, 0), (-1, 0)], None)"
    by (simp add: castVisibilityRay_def fog3_def fog0_def vis_isWalkable2 vis_isWalkable2_left
        set_add_def castVisibilityRay_loop.simps)
  have c: "currentlyVisible fog3 = [(1, 0), (2, 0)]" "discovered fog3 = [(1, 0)]" "fovRayCount fog3 = 1"
    by (simp_all add: fog3_def fog0_def)
  show ?thesis
    by (simp add: Visibility_update_def orElse_def c s vis_isWalkable2 vis_isWalkable2_left
        Let_def set_add_def)
       (simp add: fog4_def fog3_def fog0_def)
qed

text \<open>
  A ray with a negative step runs backwards and never reaches the view distance; it
  ends at the first cell that is not walkable.
\<close>

lemma negative_step_ray:
  "castVisibilityRay vis_world1 (fog0\<lparr>rayStep := - 1/2\<rparr>) (1/2) (1/2) 0 []
     = Some ([(0, 0), (-1, 0)], None)"
proof -
  have "isWalkable vis_world1 0 (1/2) = Inr True" "isWalkable vis_world1 (- (1/2)) (1/2) = Inr False"
    by (simp_all add: isWalkable_def getSector_def vis_world1_def js_index_def
        floor_sector_def wall_sector_def void_sector_def)
  then show ?thesis
    by (simp add: castVisibilityRay_def fog0_def set_add_def castVisibilityRay_loop.simps)
qed

lemma walkable_cell_vis3:
  assumes "walkable_cell vis_world3 c"
  shows "c = (1, 0)"
proof -
  obtain gx gy where c: "c = (gx, gy)" by (cases c)
  have "gx = 1 \<and> gy = 0"
  proof (rule ccontr)
    assume n: "\<not> (gx = 1 \<and> gy = 0)"
    consider "gx < 0 \<or> 3 \<le> gx \<or> gy < 0 \<or> 1 \<le> gy" | "gy = 0" "gx = 0" | "gy = 0" "gx = 2"
      using n by arith
    then have "isWalkable vis_world3 (of_int gx) (of_int gy) = Inr False"
      by cases (auto simp: isWalkable_def getSector_def vis_world1_def vis_world3_def js_index_def
          floor_sector_def wall_sector_def void_sector_def)
    with assms c show False by (simp add: walkable_cell_def)
  qed
  with c show ?thesis by simp
qed


text \<open>
  The engine on the one-cell world whose default key is not registered: the first ray
  of \<open>update(0.5, 0.5)\<close> adds \<open>(0, 0)\<close>, then throws outside the grid. The call leaves
  \<open>(0, 0)\<close> visible and not discovered.
\<close>

lemma rock_floor_world_built:
  "ebind (new_World \<lparr>c_width = Some 1, c_height = Some 1, c_defaultSector = Some ''rock''\<rparr>)
     (\<lambda>W0. setSector (registerSectorType ''floor'' no_def W0) 0 0 ''floor'')
   = Inr (rock_floor_world, True)"
  by (simp add: new_World_def register_void register_floor setSector_def rock_floor_world_def
      truthy_int_def truthy_string_def js_index_def js_store_def Let_def)

lemma rock_floor_isWalkable:
  "isWalkable rock_floor_world 0 (1/2) = Inr True" "isWalkable rock_floor_world 0 0 = Inr True"
  "isWalkable rock_floor_world (- (1/2)) (1/2) = Inl TypeError"
  by (simp_all add: isWalkable_def getSector_def rock_floor_world_def js_index_def
      floor_sector_def)

lemma rock_floor_engine:
  "new_Visibility rock_floor_world \<lparr>c_viewDistance = Some 2, c_rayStep = Some (1/2),
     c_fovRayCount = Some 1, c_losCacheTimeout = None\<rparr> = Inr fog0"
proof -
  have "width rock_floor_world = 1" "height rock_floor_world = 1"
    by (simp_all add: rock_floor_world_def)
  then have "countWalkable rock_floor_world = Inr 1"
    by (simp add: countWalkable_def rock_floor_isWalkable)
  then show ?thesis by (simp add: new_Visibility_def truthy_real_def fog0_def)
qed

lemma update_throws:
  "Visibility_update rock_floor_world fog0 (1/2) (1/2) None None
     = Some (fog0\<lparr>currentlyVisible := [(0, 0), (-1, 0)]\<rparr>, Inl TypeError) \<and>
   walkable_cell rock_floor_world (0, 0)"
proof -
  have s: "castVisibilityRay rock_floor_world fog0 (1/2) (1/2) (- pi) []
             = Some ([(0, 0), (-1, 0)], Some TypeError)"
    by (simp add: castVisibilityRay_def fog0_def rock_floor_isWalkable set_add_def
        castVisibilityRay_loop.simps)
  have c: "currentlyVisible fog0 = []" "discovered fog0 = []" "fovRayCount fog0 = 1"
    by (simp_all add: fog0_def)
  show ?thesis
    by (simp add: Visibility_update_def orElse_def c s Let_def walkable_cell_def
        rock_floor_isWalkable)
qed

subsection \<open>C6: the discovered set only grows\<close>

text \<open>
  C6. After each \<open>update\<close> call, whether it returned or threw, the set \<open>discovered\<close>
  contains the set \<open>discovered\<close> before that call; and so it does after every sequence
  of \<open>update\<close> calls and changes of the world. Every \<open>update\<close> call ends when the
  ray step is positive.
\<close>

theorem discovered_monotone:
  "(Visibility_update W V x y a f = Some (V', out) \<longrightarrow>
      set (discovered V) \<subseteq> set (discovered V')) \<and>
   (run_ops (W, V, seen, threw) ops = Some (W2, V2, seen2, threw2) \<longrightarrow>
      set (discovered V) \<subseteq> set (discovered V2)) \<and>
   (0 < rayStep V \<longrightarrow> (\<exists>r. Visibility_update W V x y a f = Some r))"
proof -
  have "set (discovered V) \<subseteq> set (discovered V2)"
    if "run_ops (W, V, seen, threw) ops = Some (W2, V2, seen2, threw2)"
    using that
  proof (induction ops arbitrary: W V seen threw)
    case Nil
    then show ?case by simp
  next
    case (Cons op ops)
    show ?case
    proof (cases op)
      case (Mutate W1)
      with Cons.prems have "run_ops (W1, V, seen, threw) ops = Some (W2, V2, seen2, threw2)"
        by simp
      then show ?thesis by (rule Cons.IH)
    next
      case (Update x y a f)
      with Cons.prems obtain V1 out where u: "Visibility_update W V x y a f = Some (V1, out)"
        and r: "run_ops (W, V1, seen \<union> set (currentlyVisible V1), threw \<or> isl out) ops
                  = Some (W2, V2, seen2, threw2)"
        by (cases "Visibility_update W V x y a f") auto
      from Visibility_update_grows [OF u] Cons.IH [OF r] show ?thesis by blast
    qed
  qed
  with Visibility_update_grows Visibility_update_returns show ?thesis by blast
qed

theorem discovered_monotone_witness:
  "Visibility_update vis_world2 fog3 (3/2) (1/2) None None = Some (fog4, Inr [(0, 0)]) \<and>
   run_ops (vis_world2, fog3, {}, False) [Update (3/2) (1/2) None None]
     = Some (vis_world2, fog4, {(1, 0), (0, 0), (-1, 0)}, False) \<and>
   0 < rayStep fog3 \<and>
   discovered fog3 = [(1, 0)] \<and> discovered fog4 = [(1, 0), (0, 0)] \<and>
   set (discovered fog3) \<subseteq> set (discovered fog4)"
proof -
  have u: "Visibility_update vis_world2 fog3 (3/2) (1/2) None None = Some (fog4, Inr [(0, 0)])"
    by (rule update4)
  then have r: "run_ops (vis_world2, fog3, {}, False) [Update (3/2) (1/2) None None]
     = Some (vis_world2, fog4, {(1, 0), (0, 0), (-1, 0)}, False)"
    by (simp add: fog4_def)
  have d: "discovered fog3 = [(1, 0)]" "discovered fog4 = [(1, 0), (0, 0)]" "0 < rayStep fog3"
    by (simp_all add: fog3_def fog4_def fog0_def)
  from discovered_monotone [of vis_world2 fog3 "3/2" "1/2" None None fog4 "Inr [(0, 0)]"
      "{}" False "[Update (3/2) (1/2) None None]" vis_world2 fog4 "{(1, 0), (0, 0), (-1, 0)}" False]
    u r
  have "set (discovered fog3) \<subseteq> set (discovered fog4)" by blast
  with u r d show ?thesis by blast
qed

subsection \<open>C2: walkable cells that were visible are discovered\<close>

text \<open>
  C2, as the claim states it, with arbitrary changes of the grid between updates: the
  wall cell \<open>(1, 0)\<close> is visible after the first update and not discovered, as it is not
  walkable; \<open>setSector(1, 0, 'floor')\<close> makes it walkable; the second update sees it
  again, but the discovery pass skips every cell that was visible before. No call throws.
\<close>

theorem discovered_invariant_counterexample:
  "run_ops (vis_world1, fog0, {}, False)
     [Update (1/2) (1/2) (Some pi) None, Mutate vis_world2, Update (1/2) (1/2) (Some pi) None]
     = Some (vis_world2, fog2, {(1, 0), (2, 0)}, False) \<and>
   (1, 0) \<in> set (currentlyVisible fog2) \<and>
   walkable_cell vis_world2 (1, 0) \<and>
   (1, 0) \<notin> set (discovered fog2)"
  using update1 update2
  by (auto simp: fog1_def fog2_def fog0_def walkable_cell_def vis_isWalkable2)

lemma run_ops_threw:
  assumes "run_ops (W, V, seen, threw) ops = Some (W', V', seen', threw')" and "threw"
  shows "threw'"
  using assms
proof (induction ops arbitrary: W V seen threw)
  case Nil
  then show ?case by simp
next
  case (Cons op ops)
  show ?case
  proof (cases op)
    case (Mutate W1)
    with Cons.prems have "run_ops (W1, V, seen, threw) ops = Some (W', V', seen', threw')"
      by simp
    from Cons.IH [OF this Cons.prems(2)] show ?thesis .
  next
    case (Update x y a f)
    with Cons.prems obtain r where
      "run_ops (W, fst r, seen \<union> set (currentlyVisible (fst r)), threw \<or> isl (snd r)) ops
         = Some (W', V', seen', threw')"
      by (cases "Visibility_update W V x y a f") auto
    from Cons.IH [OF this] Cons.prems(2) show ?thesis by simp
  qed
qed

lemma run_ops_invariant:
  assumes "run_ops (W, V, seen, False) ops = Some (W', V', seen', False)"
      and "no_new_floor W ops"
      and "set (currentlyVisible V) \<subseteq> seen"
      and "\<forall>c \<in> seen. walkable_cell W c \<longrightarrow> c \<in> set (discovered V)"
  shows "set (currentlyVisible V') \<subseteq> seen' \<and>
         (\<forall>c \<in> seen'. walkable_cell W' c \<longrightarrow> c \<in> set (discovered V'))"
  using assms
proof (induction ops arbitrary: W V seen)
  case Nil
  then show ?case by simp
next
  case (Cons op ops)
  show ?case
  proof (cases op)
    case (Mutate W2)
    with Cons.prems have r: "run_ops (W2, V, seen, False) ops = Some (W', V', seen', False)"
      and n: "no_new_floor W2 ops" and m: "\<forall>c. walkable_cell W2 c \<longrightarrow> walkable_cell W c"
      by simp_all
    from m Cons.prems(4) have "\<forall>c \<in> seen. walkable_cell W2 c \<longrightarrow> c \<in> set (discovered V)"
      by blast
    from Cons.IH [OF r n Cons.prems(3) this] show ?thesis .
  next
    case (Update x y a f)
    with Cons.prems obtain V1 out where u0: "Visibility_update W V x y a f = Some (V1, out)"
      and r0: "run_ops (W, V1, seen \<union> set (currentlyVisible V1), isl out) ops
                 = Some (W', V', seen', False)"
      by (cases "Visibility_update W V x y a f") auto
    from run_ops_threw [OF r0] obtain newly where out: "out = Inr newly" by (cases out) auto
    from u0 r0 out have u: "Visibility_update W V x y a f = Some (V1, Inr newly)"
      and r: "run_ops (W, V1, seen \<union> set (currentlyVisible V1), False) ops
                 = Some (W', V', seen', False)" by simp_all
    from Update Cons.prems have n: "no_new_floor W ops" by simp
    have d: "set (discovered V1) = set (discovered V) \<union>
           {k \<in> set (currentlyVisible V1). k \<notin> set (currentlyVisible V) \<and> walkable_cell W k}"
      using Visibility_update_spec [OF u] by (simp add: walkable_cell_def)
    have "\<forall>c \<in> seen \<union> set (currentlyVisible V1). walkable_cell W c \<longrightarrow> c \<in> set (discovered V1)"
    proof (intro ballI impI)
      fix c assume c: "c \<in> seen \<union> set (currentlyVisible V1)" and w: "walkable_cell W c"
      show "c \<in> set (discovered V1)"
      proof (cases "c \<in> seen")
        case True
        with Cons.prems(4) w have "c \<in> set (discovered V)" by blast
        with d show ?thesis by blast
      next
        case False
        with c have cv: "c \<in> set (currentlyVisible V1)" by blast
        from False Cons.prems(3) have "c \<notin> set (currentlyVisible V)" by blast
        with cv w d show ?thesis by blast
      qed
    qed
    from Cons.IH [OF r n _ this] show ?thesis by blast
  qed
qed

text \<open>
  C2 (amended). Take any sequence of \<open>update\<close> calls and changes of the sector grid, on
  an engine whose set \<open>currentlyVisible\<close> is empty at the start (as it is on a freshly
  constructed engine), such that every \<open>update\<close> call of the sequence returns without
  throwing and no change of the grid turns a cell walkable that was not. After the
  sequence the set \<open>discovered\<close> contains every cell that is walkable then and has
  appeared in \<open>currentlyVisible\<close> after some \<open>update\<close> call of the sequence.
\<close>

theorem discovered_invariant:
  assumes "run_ops (W, V, {}, False) ops = Some (W', V', seen', False)"
      and "currentlyVisible V = []"
      and "no_new_floor W ops"
  shows "\<forall>c \<in> seen'. walkable_cell W' c \<longrightarrow> c \<in> set (discovered V')"
  using run_ops_invariant [OF assms(1) assms(3)] assms(2) by simp

theorem discovered_invariant_witness:
  "run_ops (vis_world2, fog0, {}, False)
     [Update (1/2) (1/2) (Some pi) None, Mutate vis_world3, Update (1/2) (1/2) (Some pi) None]
     = Some (vis_world3, fog3, {(1, 0), (2, 0)}, False) \<and>
   currentlyVisible fog0 = [] \<and>
   no_new_floor vis_world2
     [Update (1/2) (1/2) (Some pi) None, Mutate vis_world3, Update (1/2) (1/2) (Some pi) None] \<and>
   walkable_cell vis_world3 (1, 0) \<and>
   (1, 0) \<in> set (discovered fog3)"
proof -
  let ?ops = "[Update (1/2) (1/2) (Some pi) None, Mutate vis_world3, Update (1/2) (1/2) (Some pi) None]"
  have r: "run_ops (vis_world2, fog0, {}, False) ?ops = Some (vis_world3, fog3, {(1, 0), (2, 0)}, False)"
    using update_fresh2 update3 by (auto simp: fog3_def fog0_def)
  have e: "currentlyVisible fog0 = []" by (simp add: fog0_def)
  have "walkable_cell vis_world2 (1, 0)" by (simp add: walkable_cell_def vis_isWalkable2)
  then have n: "no_new_floor vis_world2 ?ops"
    using walkable_cell_vis3 by auto
  have w: "walkable_cell vis_world3 (1, 0)" by (simp add: walkable_cell_def vis_isWalkable3)
  from discovered_invariant [OF r e n] w have "(1, 0) \<in> set (discovered fog3)" by blast
  with r e n w show ?thesis by blast
qed

subsection \<open>C9: one ray for each column\<close>

text \<open>
  C9, as the claim states it, for every world: on the one-cell world whose default key
  \<open>rock\<close> is not registered the engine is built, and the one ray of
  \<open>castRays(0.99, 0.5, 0, 0, 1)\<close> leaves the grid at its first step, where \<open>getSector\<close>
  returns \<open>undefined\<close>: \<open>castRay\<close> throws, and \<open>castRays\<close> returns no record.
\<close>

theorem castRays_counterexample:
  "new_Visibility rock_floor_world \<lparr>c_viewDistance = Some 2, c_rayStep = Some (1/2),
     c_fovRayCount = Some 1, c_losCacheTimeout = None\<rparr> = Inr fog0 \<and>
   castRays rock_floor_world fog0 (99/100) (1/2) 0 0 1 = Inl TypeError"
proof -
  have "getSector rock_floor_world (101/100) (1/2) = Inr None"
    by (simp add: getSector_def rock_floor_world_def)
  then have "castRay rock_floor_world fog0 (99/100) (1/2) 0 None = Inl TypeError"
    by (simp add: castRay_def truthy_real_def fog0_def)
  then have "castRays rock_floor_world fog0 (99/100) (1/2) 0 0 1 = Inl TypeError"
    by (simp add: castRays_def)
  with rock_floor_engine show ?thesis by simp
qed

lemma castRay_loop_defined:
  assumes "map_of (sectorTypes W) (defaultSector W) = Some d0"
      and "height W \<le> int (length (grid W))"
  shows "\<exists>h. castRay_loop W V mx dx dy x y t = Inr h"
  using assms
proof (induction W V mx dx dy x y t rule: castRay_loop.induct)
  case (1 W V mx dx dy x y t)
  note reg = "1.prems"(1) and rows = "1.prems"(2)
  show ?case
  proof (cases "t < mx")
    case False
    then show ?thesis by simp
  next
    case True
    obtain s where s: "getSector W (x + dx) (y + dy) = Inr (Some s)"
      using getSector_defined [OF reg rows] by blast
    show ?thesis
    proof (cases "walkable s")
      case False
      have "\<exists>k. getSectorKey W \<lfloor>x + dx\<rfloor> \<lfloor>y + dy\<rfloor> = Inr k"
        using rows by (auto simp: getSectorKey_def js_index_def split: option.splits)
      then obtain k where "getSectorKey W \<lfloor>x + dx\<rfloor> \<lfloor>y + dy\<rfloor> = Inr k" by blast
      with True s False show ?thesis by (simp add: Let_def)
    next
      case w: True
      from "1.IH" [OF True refl refl refl refl refl s refl _ reg rows] w
      obtain h where "castRay_loop W V mx dx dy (x + dx) (y + dy) (t + 0.02) = Inr h" by auto
      with True s w show ?thesis by (simp add: Let_def)
    qed
  qed
qed

lemma castRay_defined:
  assumes "map_of (sectorTypes W) (defaultSector W) = Some d0"
      and "height W \<le> int (length (grid W))"
  shows "\<exists>h. castRay W V sx sy a m = Inr h"
  unfolding castRay_def Let_def by (rule castRay_loop_defined [OF assms])

lemma castRays_loop_spec:
  assumes "map_of (sectorTypes W) (defaultSector W) = Some d0"
      and "height W \<le> int (length (grid W))"
  shows "\<exists>rs. castRays_loop W V sx sy a fov n idx acc = Inr (acc @ rs) \<and>
           length rs = length idx \<and>
           (\<forall>j < length idx. \<exists>h.
              castRay W V sx sy (a + ((real (idx ! j) / real n) - 0.5) * fov) None = Inr h \<and>
              rs ! j = h\<lparr>correctedDistance :=
                            Some (distance h * cos (((real (idx ! j) / real n) - 0.5) * fov)),
                          column := Some (idx ! j)\<rparr>)"
proof (induction idx arbitrary: acc)
  case Nil
  then show ?case by simp
next
  case (Cons i idx)
  let ?ang = "\<lambda>i. a + ((real i / real n) - 0.5) * fov"
  let ?ann = "\<lambda>h i. h\<lparr>correctedDistance := Some (distance h * cos (((real i / real n) - 0.5) * fov)),
                          column := Some i\<rparr>"
  obtain h where h: "castRay W V sx sy (?ang i) None = Inr h"
    using castRay_defined [OF assms] by blast
  from Cons.IH [of "acc @ [?ann h i]"] obtain rs where
    rs: "castRays_loop W V sx sy a fov n idx (acc @ [?ann h i]) = Inr ((acc @ [?ann h i]) @ rs)"
    and len: "length rs = length idx"
    and each: "\<forall>j < length idx. \<exists>h. castRay W V sx sy (?ang (idx ! j)) None = Inr h \<and>
              rs ! j = ?ann h (idx ! j)"
    by blast
  have "castRays_loop W V sx sy a fov n (i # idx) acc = Inr (acc @ (?ann h i # rs))"
    using h rs by (simp add: Let_def)
  moreover have "length (?ann h i # rs) = length (i # idx)" using len by simp
  moreover have "\<forall>j < length (i # idx). \<exists>h'. castRay W V sx sy (?ang ((i # idx) ! j)) None = Inr h' \<and>
              (?ann h i # rs) ! j = ?ann h' ((i # idx) ! j)"
  proof (intro allI impI)
    fix j assume "j < length (i # idx)"
    then show "\<exists>h'. castRay W V sx sy (?ang ((i # idx) ! j)) None = Inr h' \<and>
              (?ann h i # rs) ! j = ?ann h' ((i # idx) ! j)"
      using h each by (cases j) auto
  qed
  ultimately show ?case by blast
qed

text \<open>
  C9 (amended). On a world whose default sector key is registered and whose grid has a
  row for every index below \<open>height\<close>, for every origin, centre angle, field of view
  and natural number \<open>n\<close> of columns, \<open>castRays\<close> returns exactly \<open>n\<close> records, the
  record of index \<open>i\<close> being what \<open>castRay\<close> returns for the angle
  \<open>angle + (i / n - 0.5) * fov\<close>, with \<open>column = i\<close> and with \<open>correctedDistance\<close>
  equal to the record's distance times the cosine of \<open>(i / n - 0.5) * fov\<close>, the ray's
  offset from the centre angle.
\<close>

theorem castRays_columns:
  assumes "map_of (sectorTypes W) (defaultSector W) = Some d0"
      and "height W \<le> int (length (grid W))"
  shows "\<exists>rs. castRays W V sx sy a fov n = Inr rs \<and> length rs = n \<and>
           (\<forall>i < n. \<exists>h.
              castRay W V sx sy (a + ((real i / real n) - 0.5) * fov) None = Inr h \<and>
              rs ! i = h\<lparr>correctedDistance :=
                            Some (distance h * cos (((real i / real n) - 0.5) * fov)),
                          column := Some i\<rparr> \<and>
              correctedDistance (rs ! i)
                = Some (distance (rs ! i) * cos (((real i / real n) - 0.5) * fov)))"
proof -
  from castRays_loop_spec [OF assms, of V sx sy a fov n "[0..<n]" "[]"]
  obtain rs where r: "castRays W V sx sy a fov n = Inr rs" and l: "length rs = n"
    and e: "\<forall>j < n. \<exists>h. castRay W V sx sy (a + ((real j / real n) - 0.5) * fov) None = Inr h \<and>
              rs ! j = h\<lparr>correctedDistance := Some (distance h * cos (((real j / real n) - 0.5) * fov)),
                          column := Some j\<rparr>"
    by (auto simp: castRays_def)
  have "\<forall>i < n. \<exists>h.
              castRay W V sx sy (a + ((real i / real n) - 0.5) * fov) None = Inr h \<and>
              rs ! i = h\<lparr>correctedDistance :=
                            Some (distance h * cos (((real i / real n) - 0.5) * fov)),
                          column := Some i\<rparr> \<and>
              correctedDistance (rs ! i)
                = Some (distance (rs ! i) * cos (((real i / real n) - 0.5) * fov))"
  proof (intro allI impI)
    fix i assume "i < n"
    with e obtain h where "castRay W V sx sy (a + ((real i / real n) - 0.5) * fov) None = Inr h"
      and "rs ! i = h\<lparr>correctedDistance := Some (distance h * cos (((real i / real n) - 0.5) * fov)),
                          column := Some i\<rparr>" by blast
    then show "\<exists>h.
              castRay W V sx sy (a + ((real i / real n) - 0.5) * fov) None = Inr h \<and>
              rs ! i = h\<lparr>correctedDistance :=
                            Some (distance h * cos (((real i / real n) - 0.5) * fov)),
                          column := Some i\<rparr> \<and>
              correctedDistance (rs ! i)
                = Some (distance (rs ! i) * cos (((real i / real n) - 0.5) * fov))"
      by simp
  qed
  with r l show ?thesis by blast
qed

lemma corridor_getSector_void:
  "px < 0 \<or> 4 \<le> px \<or> py < 0 \<or> 3 \<le> py \<Longrightarrow> getSector corridor_world px py = Inr (Some void_sector)"
  by (auto simp: getSector_def corridor_world_def Let_def floor_less_iff le_floor_iff)

lemma corridor_getSector_wall2:
  assumes "0 \<le> px" "px < 4" "2 \<le> py" "py < 3"
  shows "getSector corridor_world px py = Inr (Some wall_sector)"
proof -
  from assms have fy: "\<lfloor>py\<rfloor> = 2" by linarith
  from assms have "0 \<le> \<lfloor>px\<rfloor>" "\<lfloor>px\<rfloor> < 4" by linarith+
  then have "\<lfloor>px\<rfloor> = 0 \<or> \<lfloor>px\<rfloor> = 1 \<or> \<lfloor>px\<rfloor> = 2 \<or> \<lfloor>px\<rfloor> = 3" by arith
  then show ?thesis using fy assms
    by (auto simp: getSector_def corridor_world_def js_index_def Let_def eval_nat_numeral)
qed

lemma castRay_east:
  "castRay corridor_world fog0 (199/50) (99/50) 0 None = Inr east_hit"
proof -
  have g: "getSector corridor_world 4 (99/50) = Inr (Some void_sector)"
    by (rule corridor_getSector_void) simp
  have k: "getSectorKey corridor_world 4 1 = Inr (Some ''void'')"
    by (simp add: getSectorKey_def corridor_world_def)
  show ?thesis
    by (simp add: castRay_def truthy_real_def fog0_def g k void_sector_def isVisible_def
        isDiscovered_def east_hit_def)
qed

lemma castRay_south:
  "castRay corridor_world fog0 (199/50) (99/50) (pi/2) None = Inr south_hit"
proof -
  have g: "getSector corridor_world (199/50) 2 = Inr (Some wall_sector)"
    by (rule corridor_getSector_wall2) simp_all
  have k: "getSectorKey corridor_world 3 2 = Inr (Some ''wall'')"
    by (simp add: getSectorKey_def corridor_world_def js_index_def eval_nat_numeral)
  show ?thesis
    by (simp add: castRay_def truthy_real_def fog0_def g k wall_sector_def floor_sector_def
        isVisible_def isDiscovered_def south_hit_def)
qed

theorem castRays_columns_witness:
  "map_of (sectorTypes corridor_world) (defaultSector corridor_world) = Some void_sector \<and>
   height corridor_world \<le> int (length (grid corridor_world)) \<and>
   castRays corridor_world fog0 (199/50) (99/50) (pi/2) pi 2
     = Inr [east_hit\<lparr>correctedDistance := Some 0, column := Some 0\<rparr>,
            south_hit\<lparr>correctedDistance := Some (1/50), column := Some 1\<rparr>]"
proof -
  from castRays_columns [OF corridor_shape, of fog0 "199/50" "99/50" "pi/2" pi 2]
  obtain rs where r: "castRays corridor_world fog0 (199/50) (99/50) (pi/2) pi 2 = Inr rs"
    and l: "length rs = 2"
    and e: "\<forall>i < 2. \<exists>h.
              castRay corridor_world fog0 (199/50) (99/50) (pi/2 + ((real i / real 2) - 0.5) * pi) None = Inr h \<and>
              rs ! i = h\<lparr>correctedDistance :=
                            Some (distance h * cos (((real i / real 2) - 0.5) * pi)),
                          column := Some i\<rparr> \<and>
              correctedDistance (rs ! i)
                = Some (distance (rs ! i) * cos (((real i / real 2) - 0.5) * pi))"
    by blast
  from e [rule_format, of 0] castRay_east
  have r0: "rs ! 0 = east_hit\<lparr>correctedDistance := Some 0, column := Some 0\<rparr>"
    by (auto simp: east_hit_def)
  from e [rule_format, of 1] castRay_south
  have r1: "rs ! 1 = south_hit\<lparr>correctedDistance := Some (1/50), column := Some 1\<rparr>"
    by (auto simp: south_hit_def)
  from l r0 r1 have "rs = [east_hit\<lparr>correctedDistance := Some 0, column := Some 0\<rparr>,
            south_hit\<lparr>correctedDistance := Some (1/50), column := Some 1\<rparr>]"
    by (cases rs; cases "tl rs") (auto simp: nth_Cons')
  with r corridor_shape show ?thesis by simp
qed

subsection \<open>The spatial index\<close>

lemma getNear_cell_append:
  "getNear_cell H x y rsq (xs @ ys) acc = getNear_cell H x y rsq ys (getNear_cell H x y rsq xs acc)"
  by (induction xs arbitrary: acc) (simp_all add: Let_def)

lemma getNear_cells_flat:
  "getNear_cells H EM x y rsq keys acc
     = getNear_cell H x y rsq (concat (map (\<lambda>k. orElse (map_of (spatialHash EM) k) []) keys)) acc"
  by (induction keys arbitrary: acc) (simp_all add: getNear_cell_append orElse_def split: option.splits)

lemma getNear_cell_spec:
  fixes H :: store
  defines "idf \<equiv> \<lambda>a. e_id (H a)"
  defines "hit_test \<equiv> \<lambda>x y rsq a. (e_x (H a) - x) * (e_x (H a) - x) + (e_y (H a) - y) * (e_y (H a) - y) \<le> rsq"
  assumes "inj_on idf (S \<union> set xs)" and "set chk = idf ` S"
      and "set res = {a \<in> S. hit_test x y rsq a}" and "distinct res"
  shows "set (snd (getNear_cell H x y rsq xs (chk, res))) = {a \<in> S \<union> set xs. hit_test x y rsq a}
         \<and> distinct (snd (getNear_cell H x y rsq xs (chk, res)))"
  using assms(3-)
proof (induction xs arbitrary: S chk res)
  case Nil
  then show ?case by simp
next
  case (Cons a xs)
  show ?case
  proof (cases "e_id (H a) \<in> set chk")
    case True
    with Cons.prems(2) obtain b where b: "b \<in> S" "idf b = idf a" by (auto simp: idf_def)
    with Cons.prems(1) have "b = a" by (auto simp: inj_on_def)
    with b have aS: "a \<in> S" by simp
    then have eq: "S \<union> set (a # xs) = S \<union> set xs" by auto
    from Cons.prems(1) eq have "inj_on idf (S \<union> set xs)" by simp
    from Cons.IH [OF this Cons.prems(2,3,4)] True eq show ?thesis by simp
  next
    case False
    with Cons.prems(2) have aS: "a \<notin> S" by (auto simp: idf_def)
    have eq: "insert a S \<union> set xs = S \<union> set (a # xs)" by auto
    from Cons.prems(1) eq have inj: "inj_on idf (insert a S \<union> set xs)" by simp
    have chk': "set (set_add (e_id (H a)) chk) = idf ` insert a S"
      using Cons.prems(2) by (simp add: idf_def)
    show ?thesis
    proof (cases "hit_test x y rsq a")
      case True
      have r: "set (res @ [a]) = {b \<in> insert a S. hit_test x y rsq b}"
        using Cons.prems(3) True by auto
      have d: "distinct (res @ [a])" using Cons.prems(3,4) aS by auto
      from Cons.IH [OF inj chk' r d] False True eq show ?thesis
        by (simp add: Let_def hit_test_def)
    next
      case nh: False
      have r: "set res = {b \<in> insert a S. hit_test x y rsq b}"
        using Cons.prems(3) nh by auto
      from Cons.IH [OF inj chk' r Cons.prems(4)] False nh eq show ?thesis
        by (simp add: Let_def hit_test_def)
    qed
  qed
qed

lemma set_cellRange:
  "set (cellRange a b c d) = {(cx, cy). a \<le> cx \<and> cx \<le> b \<and> c \<le> cy \<and> cy \<le> d}"
  by (auto simp: cellRange_def)

lemma square_le_abs:
  fixes d r :: real
  assumes "d * d + e * e \<le> r * r" and "0 \<le> r"
  shows "\<bar>d\<bar> \<le> r"
proof -
  have "0 \<le> e * e" by simp
  with assms(1) have "d * d \<le> r * r" by linarith
  then have "d\<^sup>2 \<le> r\<^sup>2" by (simp add: power2_eq_square)
  then have "\<bar>d\<bar> \<le> \<bar>r\<bar>" by (simp add: abs_le_square_iff)
  with assms(2) show ?thesis by simp
qed

lemma near_iff:
  assumes "0 \<le> r"
  shows "near H x y r a
     = ((e_x (H a) - x) * (e_x (H a) - x) + (e_y (H a) - y) * (e_y (H a) - y) \<le> r * r)"
proof
  assume "near H x y r a"
  then have "(e_x (H a) - x)\<^sup>2 + (e_y (H a) - y)\<^sup>2 \<le> r\<^sup>2"
    unfolding near_def by (rule sqrt_le_D)
  then show "(e_x (H a) - x) * (e_x (H a) - x) + (e_y (H a) - y) * (e_y (H a) - y) \<le> r * r"
    by (simp add: power2_eq_square)
next
  assume "(e_x (H a) - x) * (e_x (H a) - x) + (e_y (H a) - y) * (e_y (H a) - y) \<le> r * r"
  then have "(e_x (H a) - x)\<^sup>2 + (e_y (H a) - y)\<^sup>2 \<le> r\<^sup>2"
    by (simp add: power2_eq_square)
  with assms show "near H x y r a"
    unfolding near_def by (intro real_le_lsqrt) simp_all
qed

lemma floor_range:
  fixes x r cs ex :: real
  assumes "\<bar>ex - x\<bar> \<le> r" and "0 < cs"
  shows "\<lfloor>(x - r) / cs\<rfloor> \<le> \<lfloor>ex / cs\<rfloor> \<and> \<lfloor>ex / cs\<rfloor> \<le> \<lfloor>(x + r) / cs\<rfloor>"
proof -
  from assms have "(x - r) / cs \<le> ex / cs" "ex / cs \<le> (x + r) / cs"
    by (simp_all add: divide_right_mono)
  then show ?thesis by (simp add: floor_mono)
qed

lemma index_ids_inj:
  assumes "index_consistent H EM"
  shows "inj_on (\<lambda>a. e_id (H a)) (set (getAll EM))"
proof (rule inj_onI)
  fix a b assume a: "a \<in> set (getAll EM)" and b: "b \<in> set (getAll EM)"
    and e: "e_id (H a) = e_id (H b)"
  from assms have d: "distinct (map fst (entities EM))"
    and k: "\<And>entry. entry \<in> set (entities EM) \<Longrightarrow> e_id (H (snd entry)) = fst entry"
    unfolding index_consistent_def by blast+
  from a obtain ka where ka: "(ka, a) \<in> set (entities EM)" by (auto simp: getAll_def)
  from b obtain kb where kb: "(kb, b) \<in> set (entities EM)" by (auto simp: getAll_def)
  from k [OF ka] k [OF kb] e have "ka = kb" by simp
  with d ka kb show "a = b" by (metis eq_key_imp_eq_value)
qed

lemma update_fresh_key:
  "k \<notin> fst ` set al \<Longrightarrow> AList.update k v al = al @ [(k, v)]"
  by (induction al) auto

lemma EntityManager_add_consistent:
  assumes hc: "index_consistent H EM" and fresh: "e_id (H a) \<notin> fst ` set (entities EM)"
  shows "index_consistent H (EntityManager_add H EM a)"
proof -
  let ?key = "getCellKey EM (e_x (H a)) (e_y (H a))"
  let ?old = "orElse (map_of (spatialHash EM) ?key) []"
  let ?EM' = "EntityManager_add H EM a"
  have ent: "entities ?EM' = entities EM @ [(e_id (H a), a)]"
    using fresh by (simp add: EntityManager_add_def addToSpatialHash_def Let_def update_fresh_key)
  have cs: "cellSize ?EM' = cellSize EM"
    by (simp add: EntityManager_add_def addToSpatialHash_def Let_def)
  have ck: "getCellKey ?EM' = getCellKey EM"
    by (simp add: getCellKey_def cs fun_eq_iff)
  have sh: "map_of (spatialHash ?EM') = (map_of (spatialHash EM))(?key \<mapsto> set_add a ?old)"
    by (simp add: EntityManager_add_def addToSpatialHash_def Let_def update_conv' getCellKey_def)
  have all: "set (getAll ?EM') = insert a (set (getAll EM))"
    by (simp add: getAll_def ent)
  from hc have c0: "0 < cellSize EM" and d: "distinct (map fst (entities EM))"
    and k: "\<And>entry. entry \<in> set (entities EM) \<Longrightarrow> e_id (H (snd entry)) = fst entry"
    unfolding index_consistent_def by blast+
  from hc have inb: "\<exists>bucket. map_of (spatialHash EM) (getCellKey EM (e_x (H b)) (e_y (H b))) = Some bucket
                   \<and> b \<in> set bucket" if "b \<in> set (getAll EM)" for b
    unfolding index_consistent_def using that by blast
  from hc have reg: "set bucket \<subseteq> set (getAll EM)"
    if "map_of (spatialHash EM) key = Some bucket" for key bucket
    unfolding index_consistent_def using that by blast
  have old: "set ?old \<subseteq> set (getAll EM)"
    using reg by (cases "map_of (spatialHash EM) ?key") (simp_all add: orElse_def)
  have 1: "0 < cellSize ?EM'" using c0 cs by simp
  have 2: "distinct (map fst (entities ?EM'))" using d fresh by (simp add: ent)
  have 3: "\<forall>entry \<in> set (entities ?EM'). e_id (H (snd entry)) = fst entry"
    using k by (auto simp: ent)
  have 4: "\<forall>b \<in> set (getAll ?EM').
         \<exists>bucket. map_of (spatialHash ?EM') (getCellKey ?EM' (e_x (H b)) (e_y (H b))) = Some bucket
                   \<and> b \<in> set bucket"
  proof
    fix b assume b: "b \<in> set (getAll ?EM')"
    show "\<exists>bucket. map_of (spatialHash ?EM') (getCellKey ?EM' (e_x (H b)) (e_y (H b))) = Some bucket
                   \<and> b \<in> set bucket"
    proof (cases "getCellKey EM (e_x (H b)) (e_y (H b)) = ?key")
      case True
      have "b \<in> set (set_add a ?old)"
      proof (cases "b = a")
        case True
        then show ?thesis by simp
      next
        case False
        with b all have "b \<in> set (getAll EM)" by simp
        from inb [OF this] True show ?thesis by (auto simp: orElse_def)
      qed
      with True show ?thesis by (simp add: sh ck)
    next
      case False
      then have "b \<noteq> a" by auto
      with b all have "b \<in> set (getAll EM)" by simp
      from inb [OF this] False show ?thesis by (simp add: sh ck)
    qed
  qed
  have 5: "\<forall>key bucket. map_of (spatialHash ?EM') key = Some bucket \<longrightarrow> set bucket \<subseteq> set (getAll ?EM')"
  proof (intro allI impI)
    fix key bucket assume m: "map_of (spatialHash ?EM') key = Some bucket"
    show "set bucket \<subseteq> set (getAll ?EM')"
    proof (cases "key = ?key")
      case True
      with m have "bucket = set_add a ?old" by (simp add: sh)
      with old show ?thesis by (auto simp: all)
    next
      case False
      with m have "map_of (spatialHash EM) key = Some bucket" by (simp add: sh)
      from reg [OF this] show ?thesis by (auto simp: all)
    qed
  qed
  from 1 2 3 4 5 show ?thesis unfolding index_consistent_def by blast
qed

lemma new_EntityManager_consistent: "index_consistent H new_EntityManager"
  by (simp add: index_consistent_def new_EntityManager_def getAll_def)

text \<open>The three entities and their manager are what the public interface builds.\<close>

lemma entity_at_built:
  "ident \<noteq> 0 \<Longrightarrow>
   new_Entity (no_entity_config\<lparr>c_id := Some ident, c_x := Some x, c_y := Some y\<rparr>) n
     = (entity_at ident x y, n)"
  by (simp add: new_Entity_def no_entity_config_def entity_at_def truthy_int_def truthy_real_def
      truthy_string_def orElse_def)

lemma em3_built:
  "EntityManager_add store3 (EntityManager_add store3 (EntityManager_add store3 new_EntityManager 10) 11) 12
     = em3"
  by (simp add: EntityManager_add_def addToSpatialHash_def getCellKey_def new_EntityManager_def
      store3_def entity_at_def em3_def Let_def orElse_def set_add_def)

lemma em3_consistent: "index_consistent store3 em3"
  unfolding index_consistent_def
  by (auto simp: em3_def store3_def entity_at_def getAll_def getCellKey_def split: if_splits)

lemma cellRange_query: "cellRange 0 1 (-1) 0 = [(0, -1), (1, -1), (0, 0), (1, 0)]"
  by (simp add: cellRange_def upto.simps)

lemma getNear_em3: "getNear store3 em3 3 0 2 = [10, 11]"
  using cellRange_query
  by (simp add: getNear_def em3_def store3_def entity_at_def Let_def set_add_def)

subsection \<open>C4: the entities near a point\<close>

text \<open>
  C4, as the claim states it, with a distance strictly less than the radius: the
  entity at \<open>(1, 0)\<close> is at distance exactly 2 from \<open>(3, 0)\<close>, and \<open>getNear(3, 0, 2)\<close>
  returns it, as the test is \<open>dx * dx + dy * dy <= radiusSq\<close>.
\<close>

theorem getNear_counterexample:
  "getNear store3 em3 3 0 2 = [10, 11] \<and>
   sqrt ((e_x (store3 10) - 3)\<^sup>2 + (e_y (store3 10) - 0)\<^sup>2) = 2"
proof -
  have "getNear store3 em3 3 0 2 = [10, 11]" by (rule getNear_em3)
  moreover have "sqrt ((e_x (store3 10) - 3)\<^sup>2 + (e_y (store3 10) - 0)\<^sup>2) = 2"
    by (simp add: store3_def entity_at_def)
  ultimately show ?thesis by simp
qed

text \<open>
  C4 (amended). Take a manager whose cell size is positive, in which every registered
  entity has the id it is registered under, is in the spatial-hash bucket of the cell
  that its current position lies in, and in which the buckets hold registered entities
  only (the keys of the map \<open>entities\<close> being distinct). For every query point
  \<open>(x, y)\<close> and every radius \<open>r \<ge> 0\<close>, \<open>getNear(x, y, r)\<close> returns exactly the
  registered entities whose Euclidean distance from their centre to \<open>(x, y)\<close> is at most
  \<open>r\<close>, each once, whatever bucket they are in.
\<close>

theorem getNear_exact:
  assumes hc: "index_consistent H EM" and r0: "0 \<le> r"
  shows "set (getNear H EM x y r) = {a \<in> set (getAll EM). near H x y r a}
         \<and> distinct (getNear H EM x y r)"
proof -
  let ?idf = "\<lambda>a. e_id (H a)"
  let ?hit = "\<lambda>a. (e_x (H a) - x) * (e_x (H a) - x) + (e_y (H a) - y) * (e_y (H a) - y) \<le> r * r"
  let ?keys = "cellRange \<lfloor>(x - r) / cellSize EM\<rfloor> \<lfloor>(x + r) / cellSize EM\<rfloor>
      \<lfloor>(y - r) / cellSize EM\<rfloor> \<lfloor>(y + r) / cellSize EM\<rfloor>"
  let ?xs = "concat (map (\<lambda>k. orElse (map_of (spatialHash EM) k) []) ?keys)"
  from hc have cs: "0 < cellSize EM"
    unfolding index_consistent_def by blast
  from hc have inj: "inj_on ?idf (set (getAll EM))" by (rule index_ids_inj)
  from hc have inb: "\<exists>bucket. map_of (spatialHash EM) (getCellKey EM (e_x (H a)) (e_y (H a))) = Some bucket
                   \<and> a \<in> set bucket" if "a \<in> set (getAll EM)" for a
    unfolding index_consistent_def using that by blast
  from hc have reg: "set bucket \<subseteq> set (getAll EM)"
    if "map_of (spatialHash EM) key = Some bucket" for key bucket
    unfolding index_consistent_def using that by blast
  have sub: "set ?xs \<subseteq> set (getAll EM)"
  proof
    fix a assume "a \<in> set ?xs"
    then obtain k where "a \<in> set (orElse (map_of (spatialHash EM) k) [])" by auto
    then obtain bucket where "map_of (spatialHash EM) k = Some bucket" "a \<in> set bucket"
      by (cases "map_of (spatialHash EM) k") (simp_all add: orElse_def)
    with reg show "a \<in> set (getAll EM)" by blast
  qed
  have g: "getNear H EM x y r = snd (getNear_cell H x y (r * r) ?xs ([], []))"
    by (simp add: getNear_def Let_def getNear_cells_flat)
  have "inj_on ?idf ({} \<union> set ?xs)" using inj sub by (auto intro: inj_on_subset)
  from getNear_cell_spec [OF this, of "[]" "[]" x y "r * r"]
  have s: "set (getNear H EM x y r) = {a \<in> set ?xs. ?hit a}" and d: "distinct (getNear H EM x y r)"
    by (simp_all add: g)
  have "{a \<in> set ?xs. ?hit a} = {a \<in> set (getAll EM). ?hit a}"
  proof (intro equalityI subsetI)
    fix a assume "a \<in> {a \<in> set ?xs. ?hit a}"
    with sub show "a \<in> {a \<in> set (getAll EM). ?hit a}" by auto
  next
    fix a assume "a \<in> {a \<in> set (getAll EM). ?hit a}"
    then have a: "a \<in> set (getAll EM)" and h: "?hit a" by simp_all
    from inb [OF a] obtain bucket where
      b: "map_of (spatialHash EM) (getCellKey EM (e_x (H a)) (e_y (H a))) = Some bucket"
      and ab: "a \<in> set bucket" by blast
    from h r0 have "\<bar>e_x (H a) - x\<bar> \<le> r" by (rule square_le_abs)
    from floor_range [OF this cs] have kx: "\<lfloor>(x - r) / cellSize EM\<rfloor> \<le> \<lfloor>e_x (H a) / cellSize EM\<rfloor>"
      "\<lfloor>e_x (H a) / cellSize EM\<rfloor> \<le> \<lfloor>(x + r) / cellSize EM\<rfloor>" by simp_all
    from h have "(e_y (H a) - y) * (e_y (H a) - y) + (e_x (H a) - x) * (e_x (H a) - x) \<le> r * r"
      by (simp add: add.commute)
    then have "\<bar>e_y (H a) - y\<bar> \<le> r" using r0 by (rule square_le_abs)
    from floor_range [OF this cs] have ky: "\<lfloor>(y - r) / cellSize EM\<rfloor> \<le> \<lfloor>e_y (H a) / cellSize EM\<rfloor>"
      "\<lfloor>e_y (H a) / cellSize EM\<rfloor> \<le> \<lfloor>(y + r) / cellSize EM\<rfloor>" by simp_all
    from kx ky have "getCellKey EM (e_x (H a)) (e_y (H a)) \<in> set ?keys"
      by (simp add: set_cellRange getCellKey_def)
    with b ab have "a \<in> set ?xs" by (force simp: orElse_def)
    with h show "a \<in> {a \<in> set ?xs. ?hit a}" by simp
  qed
  with s have "set (getNear H EM x y r) = {a \<in> set (getAll EM). near H x y r a}"
    by (simp add: near_iff [OF r0])
  with d show ?thesis by simp
qed

theorem getNear_exact_witness:
  "index_consistent store3 em3 \<and> (0::real) \<le> 5/2 \<and>
   getCellKey em3 3 0 = (0, 0) \<and> getCellKey em3 (e_x (store3 11)) (e_y (store3 11)) = (1, 0) \<and>
   set (getNear store3 em3 3 0 (5/2)) = {10, 11} \<and> distinct (getNear store3 em3 3 0 (5/2))"
proof -
  have n0: "near store3 3 0 (5/2) 10" and n1: "near store3 3 0 (5/2) 11"
    and n2: "\<not> near store3 3 0 (5/2) 12"
    by (simp_all add: near_iff store3_def entity_at_def)
  have "{a \<in> set (getAll em3). near store3 3 0 (5/2) a} = {10, 11}"
    using n0 n1 n2 by (auto simp: getAll_def em3_def)
  moreover have "getCellKey em3 3 0 = (0, 0)"
    "getCellKey em3 (e_x (store3 11)) (e_y (store3 11)) = (1, 0)"
    by (simp_all add: getCellKey_def em3_def store3_def entity_at_def)
  ultimately show ?thesis
    using getNear_exact [OF em3_consistent, of "5/2" 3 0] em3_consistent by simp
qed

subsection \<open>C5: marking an entity, and removing it\<close>

lemma getNear_cell_same_place:
  "same_place H H' \<Longrightarrow> getNear_cell H' x y rsq xs acc = getNear_cell H x y rsq xs acc"
  by (induction xs arbitrary: acc) (simp_all add: same_place_def Let_def)

lemma getNear_same_place:
  "same_place H H' \<Longrightarrow> getNear H' EM x y r = getNear H EM x y r"
  by (simp add: getNear_def Let_def getNear_cells_flat getNear_cell_same_place)

lemma Entity_remove_same_place: "same_place H (Entity_remove H a)"
  by (simp add: same_place_def Entity_remove_def)

lemma Entity_update_flags:
  "e_id (Entity_update H a dt b) = e_id (H b)"
  "e_removed (Entity_update H a dt b) = e_removed (H b)"
  by (simp_all add: Entity_update_def)

lemma updateSpatialHash_entities: "entities (updateSpatialHash H EM a ox oy) = entities EM"
  by (simp add: updateSpatialHash_def addToSpatialHash_def Let_def)

lemma update_entities_keeps:
  assumes "update_entities H EM dt refs = (H', EM')"
  shows "entities EM' = entities EM \<and> (\<forall>b. e_id (H' b) = e_id (H b) \<and> e_removed (H' b) = e_removed (H b))"
  using assms
proof (induction refs arbitrary: H EM)
  case Nil
  then show ?case by simp
next
  case (Cons a refs)
  show ?case
  proof (cases "e_active (H a)")
    case False
    with Cons show ?thesis by simp
  next
    case True
    let ?H1 = "Entity_update H a dt"
    show ?thesis
    proof (cases "e_x (?H1 a) \<noteq> e_x (H a) \<or> e_y (?H1 a) \<noteq> e_y (H a)")
      case moved: True
      with Cons.prems True
      have "update_entities ?H1 (updateSpatialHash ?H1 EM a (e_x (H a)) (e_y (H a))) dt refs = (H', EM')"
        by (simp add: Let_def)
      from Cons.IH [OF this] show ?thesis
        by (simp add: Entity_update_flags updateSpatialHash_entities)
    next
      case still: False
      with Cons.prems True have "update_entities ?H1 EM dt refs = (H', EM')"
        by (simp add: Let_def)
      from Cons.IH [OF this] show ?thesis
        by (simp add: Entity_update_flags)
    qed
  qed
qed

lemma EntityManager_remove_effect:
  assumes "EntityManager_remove H EM target = (H', EM')"
  shows "(\<forall>b. e_id (H' b) = e_id (H b) \<and> (e_removed (H b) \<longrightarrow> e_removed (H' b)))"
    and "entities EM' = entities EM \<or>
         entities EM' = AList.delete (case target of ById n \<Rightarrow> n | ByEntity b \<Rightarrow> e_id (H b)) (entities EM)"
    and "map_of (entities EM) (case target of ById n \<Rightarrow> n | ByEntity b \<Rightarrow> e_id (H b)) \<noteq> None
         \<Longrightarrow> entities EM' = AList.delete (case target of ById n \<Rightarrow> n | ByEntity b \<Rightarrow> e_id (H b)) (entities EM)"
proof -
  let ?k = "case target of ById n \<Rightarrow> n | ByEntity b \<Rightarrow> e_id (H b)"
  show "\<forall>b. e_id (H' b) = e_id (H b) \<and> (e_removed (H b) \<longrightarrow> e_removed (H' b))"
    using assms
    by (auto simp: EntityManager_remove_def Let_def Entity_remove_def split: option.splits)
  show "entities EM' = entities EM \<or> entities EM' = AList.delete ?k (entities EM)"
  proof (cases "map_of (entities EM) ?k")
    case None
    with assms have "entities EM' = entities EM" by (simp add: EntityManager_remove_def Let_def)
    then show ?thesis by simp
  next
    case (Some c)
    with assms have "entities EM' = AList.delete ?k (entities EM)"
      by (auto simp: EntityManager_remove_def Let_def removeFromSpatialHash_def split: option.splits)
    then show ?thesis by simp
  qed
  show "entities EM' = AList.delete ?k (entities EM)" if "map_of (entities EM) ?k \<noteq> None"
    using assms that
    by (auto simp: EntityManager_remove_def Let_def removeFromSpatialHash_def split: option.splits)
qed

lemma purge_removes:
  assumes "purge H EM es = (H', EM')"
      and "e_id (H a) = k" and "e_removed (H a)"
      and "map_of (entities EM) k = Some a \<or> map_of (entities EM) k = None"
  shows "(map_of (entities EM') k = Some a \<or> map_of (entities EM') k = None) \<and>
         (map_of (entities EM) k = None \<longrightarrow> map_of (entities EM') k = None) \<and>
         ((k, a) \<in> set es \<longrightarrow> map_of (entities EM') k = None)"
  using assms
proof (induction es arbitrary: H EM)
  case Nil
  then show ?case by simp
next
  case (Cons entry es)
  show ?case
  proof (cases "map_of (entities EM) (fst entry) = Some (snd entry) \<and> e_removed (H (snd entry))")
    case False
    with Cons.prems(1) have p: "purge H EM es = (H', EM')" by auto
    from Cons.IH [OF p Cons.prems(2,3,4)] have ih:
      "map_of (entities EM') k = Some a \<or> map_of (entities EM') k = None"
      "map_of (entities EM) k = None \<longrightarrow> map_of (entities EM') k = None"
      "(k, a) \<in> set es \<longrightarrow> map_of (entities EM') k = None" by simp_all
    have "map_of (entities EM') k = None" if "entry = (k, a)"
    proof -
      from that False Cons.prems(3) have "map_of (entities EM) k \<noteq> Some a" by simp
      with Cons.prems(4) have "map_of (entities EM) k = None" by simp
      with ih(2) show ?thesis by simp
    qed
    with ih show ?thesis by auto
  next
    case True
    obtain H1 EM1 where r: "EntityManager_remove H EM (ByEntity (snd entry)) = (H1, EM1)"
      by (cases "EntityManager_remove H EM (ByEntity (snd entry))")
    with True Cons.prems(1) have p: "purge H1 EM1 es = (H', EM')" by simp
    let ?j = "e_id (H (snd entry))"
    from EntityManager_remove_effect(1) [OF r] Cons.prems(2,3)
    have id1: "e_id (H1 a) = k" and rm1: "e_removed (H1 a)" by simp_all
    from EntityManager_remove_effect(2) [OF r]
    have e1: "entities EM1 = entities EM \<or> entities EM1 = AList.delete ?j (entities EM)" by simp
    then have look: "map_of (entities EM1) k = map_of (entities EM) k \<or> map_of (entities EM1) k = None"
      by (auto simp: delete_conv' split: if_splits)
    with Cons.prems(4) have inv1: "map_of (entities EM1) k = Some a \<or> map_of (entities EM1) k = None"
      by auto
    from Cons.IH [OF p id1 rm1 inv1] have ih:
      "map_of (entities EM') k = Some a \<or> map_of (entities EM') k = None"
      "map_of (entities EM1) k = None \<longrightarrow> map_of (entities EM') k = None"
      "(k, a) \<in> set es \<longrightarrow> map_of (entities EM') k = None" by simp_all
    have a: "map_of (entities EM) k = None \<longrightarrow> map_of (entities EM') k = None"
      using look ih(2) by auto
    have b: "map_of (entities EM') k = None" if "entry = (k, a)"
    proof -
      from that True Cons.prems(2) have "map_of (entities EM) ?j \<noteq> None" and j: "?j = k" by simp_all
      then have "entities EM1 = AList.delete ?j (entities EM)"
        using EntityManager_remove_effect(3) [OF r] by simp
      with j have "map_of (entities EM1) k = None" by (simp add: delete_conv')
      with ih(2) show ?thesis by simp
    qed
    from ih a b show ?thesis by auto
  qed
qed

lemma remove_em3:
  "EntityManager_remove store3 em3 (ById 2) = (Entity_remove store3 11, em3_without)"
  by (simp add: EntityManager_remove_def em3_def em3_without_def Let_def Entity_remove_def
      store3_def entity_at_def removeFromSpatialHash_def dropFromCell_def getCellKey_def)

lemma update_em3:
  "EntityManager_update (Entity_remove store3 11) em3 (1/60) = (Entity_remove store3 11, em3_without)"
proof -
  have act: "e_active (Entity_remove store3 11 10)" "\<not> e_active (Entity_remove store3 11 11)"
    "e_active (Entity_remove store3 11 12)"
    by (simp_all add: Entity_remove_def store3_def entity_at_def)
  have still: "Entity_update (Entity_remove store3 11) 10 (1/60) = Entity_remove store3 11"
    "Entity_update (Entity_remove store3 11) 12 (1/60) = Entity_remove store3 11"
    by (simp_all add: Entity_update_def Entity_remove_def store3_def entity_at_def)
  have first: "update_entities (Entity_remove store3 11) em3 (1/60) [10, 11, 12]
      = (Entity_remove store3 11, em3)"
    by (simp only: update_entities.simps act still Let_def not_True_eq_False not_False_eq_True
        if_True if_False simp_thms)
  have rm: "\<not> e_removed (Entity_remove store3 11 10)" "e_removed (Entity_remove store3 11 11)"
    "\<not> e_removed (Entity_remove store3 11 12)"
    by (simp_all add: Entity_remove_def store3_def entity_at_def)
  have again: "EntityManager_remove (Entity_remove store3 11) em3 (ByEntity 11)
      = (Entity_remove store3 11, em3_without)"
    by (simp add: EntityManager_remove_def em3_def em3_without_def Let_def Entity_remove_def
      store3_def entity_at_def removeFromSpatialHash_def dropFromCell_def getCellKey_def)
  have e: "entities em3 = [(1, 10), (2, 11), (3, 12)]" "entities em3_without = [(1, 10), (3, 12)]"
    by (simp_all add: em3_def em3_without_def)
  have "purge (Entity_remove store3 11) em3 (entities em3) = (Entity_remove store3 11, em3_without)"
    by (simp add: e rm again)
  with first show ?thesis by (simp add: EntityManager_update_def e)
qed

text \<open>
  C5, as the claim states it, removal never being immediate: \<open>manager.remove(2)\<close>
  deletes the entity from the map and from its bucket at once, outside any update pass.
\<close>

theorem removal_counterexample:
  "EntityManager_get em3 2 = Some 11 \<and>
   getNear store3 em3 3 0 2 = [10, 11] \<and>
   EntityManager_remove store3 em3 (ById 2) = (Entity_remove store3 11, em3_without) \<and>
   EntityManager_get em3_without 2 = None \<and>
   getNear (Entity_remove store3 11) em3_without 3 0 2 = [10]"
proof -
  have "getNear (Entity_remove store3 11) em3_without 3 0 2 = [10]"
    using cellRange_query
    by (simp add: getNear_def em3_without_def Entity_remove_def store3_def entity_at_def Let_def
        set_add_def)
  then show ?thesis
    by (simp add: getNear_em3 remove_em3) (simp add: EntityManager_get_def em3_def em3_without_def)
qed

text \<open>
  C5 (amended). An entity registered under its id and marked by \<open>entity.remove()\<close>
  stays registered: \<open>get(id)\<close> returns it, the flag \<open>removed\<close> is set, and \<open>getNear\<close>
  returns what it returned before. The first pass of the manager's \<open>update(dt)\<close> (with
  the base class's \<open>Entity.update\<close>) leaves the map \<open>entities\<close> as it was, and after the
  whole \<open>update(dt)\<close> call nothing is registered under the id. \<open>manager.remove(entity)\<close>,
  in contrast, leaves nothing registered under the id at once.
\<close>

theorem removal_deferred:
  assumes reg: "EntityManager_get EM (e_id (H a)) = Some a"
  shows "EntityManager_get EM (e_id (Entity_remove H a a)) = Some a \<and>
         e_removed (Entity_remove H a a) \<and>
         getNear (Entity_remove H a) EM x y r = getNear H EM x y r \<and>
         entities (snd (update_entities (Entity_remove H a) EM dt (getAll EM))) = entities EM \<and>
         EntityManager_get (snd (EntityManager_update (Entity_remove H a) EM dt)) (e_id (H a)) = None \<and>
         EntityManager_get (snd (EntityManager_remove H EM (ByEntity a))) (e_id (H a)) = None"
proof -
  let ?H = "Entity_remove H a"
  let ?k = "e_id (H a)"
  have idk: "e_id (?H a) = ?k" and rm: "e_removed (?H a)" by (simp_all add: Entity_remove_def)
  obtain H1 EM1 where u: "update_entities ?H EM dt (getAll EM) = (H1, EM1)"
    by (cases "update_entities ?H EM dt (getAll EM)")
  from update_entities_keeps [OF u] idk rm
  have e1: "entities EM1 = entities EM" and id1: "e_id (H1 a) = ?k" and rm1: "e_removed (H1 a)"
    by simp_all
  obtain H2 EM2 where p: "purge H1 EM1 (entities EM1) = (H2, EM2)"
    by (cases "purge H1 EM1 (entities EM1)")
  from reg e1 have l1: "map_of (entities EM1) ?k = Some a" by (simp add: EntityManager_get_def)
  then have "(?k, a) \<in> set (entities EM1)" by (rule map_of_SomeD)
  with purge_removes [OF p id1 rm1] l1 have "map_of (entities EM2) ?k = None" by simp
  moreover have "EntityManager_update ?H EM dt = (H2, EM2)"
    using u p by (simp add: EntityManager_update_def getAll_def)
  ultimately have upd: "EntityManager_get (snd (EntityManager_update ?H EM dt)) ?k = None"
    by (simp add: EntityManager_get_def)
  have now: "EntityManager_get (snd (EntityManager_remove H EM (ByEntity a))) ?k = None"
    using reg
    by (simp add: EntityManager_remove_def EntityManager_get_def Let_def removeFromSpatialHash_def
        delete_conv' split: option.splits)
  from reg idk rm u e1 upd now show ?thesis
    by (simp add: getNear_same_place [OF Entity_remove_same_place])
qed

theorem removal_deferred_witness:
  "EntityManager_get em3 (e_id (store3 11)) = Some 11 \<and>
   e_removed (Entity_remove store3 11 11) \<and>
   EntityManager_get em3 2 = Some 11 \<and>
   getNear (Entity_remove store3 11) em3 3 0 2 = [10, 11] \<and>
   EntityManager_update (Entity_remove store3 11) em3 (1/60) = (Entity_remove store3 11, em3_without) \<and>
   EntityManager_get em3_without 2 = None"
proof -
  have i: "e_id (store3 11) = 2" by (simp add: store3_def entity_at_def)
  have g: "EntityManager_get em3 (e_id (store3 11)) = Some 11"
    by (simp add: i EntityManager_get_def em3_def)
  from removal_deferred [where EM = em3 and H = store3 and a = 11 and x = 3 and y = 0 and r = 2
      and dt = "1/60", OF g] i getNear_em3 update_em3 g
  show ?thesis by simp
qed

end
